theory Spec2Isabelle
  imports Complex_Main
begin

section \<open>Python values\<close>

text \<open>
  \<^verbatim>\<open>import_oca_package\<close> works on whatever \<^verbatim>\<open>json.load\<close> returns, and on the dictionaries
  it builds itself. A value is \<^verbatim>\<open>None\<close>, a bool, an int, a float, a str, a list or a dict.
  A dict is the list of its items in insertion order; its keys are pairwise different
  under Python's key equality. Floats are the finite ones (the literals \<^verbatim>\<open>NaN\<close> and
  \<^verbatim>\<open>Infinity\<close>, which are not JSON, are left out), carried as the rational they denote.
\<close>

datatype pyval =
    PNone
  | PBool bool
  | PInt int
  | PFloat rat
  | PStr string
  | PList "pyval list"
  | PDict "(pyval \<times> pyval) list"

datatype pyerror = AttributeError | TypeError | IndexError | KeyError

text \<open>Sequencing of steps that may raise: the first exception ends the computation.\<close>

definition bind :: "pyerror + 'a \<Rightarrow> ('a \<Rightarrow> pyerror + 'b) \<Rightarrow> pyerror + 'b" where
  "bind m f = (case m of Inl e \<Rightarrow> Inl e | Inr x \<Rightarrow> f x)"

text \<open>Truth value of an object, as \<^verbatim>\<open>if x\<close>, \<^verbatim>\<open>x or y\<close> and \<^verbatim>\<open>a if x else b\<close> test it.\<close>

fun truthy :: "pyval \<Rightarrow> bool" where
  "truthy PNone = False"
| "truthy (PBool b) = b"
| "truthy (PInt i) = (i \<noteq> 0)"
| "truthy (PFloat r) = (r \<noteq> 0)"
| "truthy (PStr s) = (s \<noteq> [])"
| "truthy (PList xs) = (xs \<noteq> [])"
| "truthy (PDict d) = (d \<noteq> [])"

fun hashable :: "pyval \<Rightarrow> bool" where
  "hashable (PList xs) = False"
| "hashable (PDict d) = False"
| "hashable v = True"

text \<open>Bools, ints and floats compare by their numeric value: \<^verbatim>\<open>True == 1 == 1.0\<close>.\<close>

fun num_of :: "pyval \<Rightarrow> rat option" where
  "num_of (PBool b) = Some (if b then 1 else 0)"
| "num_of (PInt i) = Some (of_int i)"
| "num_of (PFloat r) = Some r"
| "num_of v = None"

text \<open>Equality of dict keys (hashable values).\<close>

definition key_eq :: "pyval \<Rightarrow> pyval \<Rightarrow> bool" where
  "key_eq a b =
     (case num_of a of
        Some x \<Rightarrow> (case num_of b of Some y \<Rightarrow> x = y | None \<Rightarrow> False)
      | None \<Rightarrow> (case num_of b of Some y \<Rightarrow> False | None \<Rightarrow> a = b))"

text \<open>\<^verbatim>\<open>d.get(k)\<close> on the items of a dict, and \<^verbatim>\<open>d[k] = v\<close>: an existing key keeps its place
  (and its key object), a new one goes to the end.\<close>

fun dict_get :: "(pyval \<times> 'v) list \<Rightarrow> pyval \<Rightarrow> 'v option" where
  "dict_get [] k = None"
| "dict_get ((k', v) # d) k = (if key_eq k' k then Some v else dict_get d k)"

fun dict_set :: "(pyval \<times> 'v) list \<Rightarrow> pyval \<Rightarrow> 'v \<Rightarrow> (pyval \<times> 'v) list" where
  "dict_set [] k v = [(k, v)]"
| "dict_set ((k', v') # d) k v =
     (if key_eq k' k then (k', v) # d else (k', v') # dict_set d k v)"

text \<open>\<^verbatim>\<open>a == b\<close> on values: lists elementwise, dicts as mappings, the rest as keys.\<close>

fun py_eq :: "pyval \<Rightarrow> pyval \<Rightarrow> bool"
  and py_eq_list :: "pyval list \<Rightarrow> pyval list \<Rightarrow> bool"
  and py_eq_items :: "(pyval \<times> pyval) list \<Rightarrow> (pyval \<times> pyval) list \<Rightarrow> bool" where
  "py_eq (PList xs) (PList ys) = py_eq_list xs ys"
| "py_eq (PList xs) b = False"
| "py_eq (PDict d) (PDict e) = (length d = length e \<and> py_eq_items d e)"
| "py_eq (PDict d) b = False"
| "py_eq a (PList ys) = False"
| "py_eq a (PDict e) = False"
| "py_eq a b = key_eq a b"
| "py_eq_list [] ys = (ys = [])"
| "py_eq_list (x # xs) [] = False"
| "py_eq_list (x # xs) (y # ys) = (py_eq x y \<and> py_eq_list xs ys)"
| "py_eq_items [] e = True"
| "py_eq_items ((k, v) # d) e =
     ((case dict_get e k of None \<Rightarrow> False | Some w \<Rightarrow> py_eq v w) \<and> py_eq_items d e)"

text \<open>\<^verbatim>\<open>s in t\<close> on two strings: \<^verbatim>\<open>s\<close> occurs in \<^verbatim>\<open>t\<close>.\<close>

fun starts_with :: "string \<Rightarrow> string \<Rightarrow> bool" where
  "starts_with t [] = True"
| "starts_with [] (c # s) = False"
| "starts_with (c' # t) (c # s) = (c' = c \<and> starts_with t s)"

fun occurs_in :: "string \<Rightarrow> string \<Rightarrow> bool" where
  "occurs_in s [] = (s = [])"
| "occurs_in s (c # t) = (starts_with (c # t) s \<or> occurs_in s t)"

subsection \<open>The operations the function uses\<close>

text \<open>\<^verbatim>\<open>x.get(k, default)\<close>: only a dict has the method. The keys looked up are string
  literals and keys taken from a dict, so they are hashable.\<close>

definition py_get :: "pyval \<Rightarrow> pyval \<Rightarrow> pyval \<Rightarrow> pyerror + pyval" where
  "py_get x k dflt =
     (case x of
        PDict d \<Rightarrow> Inr (case dict_get d k of Some v \<Rightarrow> v | None \<Rightarrow> dflt)
      | _ \<Rightarrow> Inl AttributeError)"

text \<open>\<^verbatim>\<open>x.items()\<close>: only a dict has the method.\<close>

definition py_items :: "pyval \<Rightarrow> pyerror + (pyval \<times> pyval) list" where
  "py_items x = (case x of PDict d \<Rightarrow> Inr d | _ \<Rightarrow> Inl AttributeError)"

text \<open>\<^verbatim>\<open>for e in x\<close>: a list gives its elements, a dict its keys, a str its characters;
  nothing else is iterable.\<close>

definition py_iter :: "pyval \<Rightarrow> pyerror + pyval list" where
  "py_iter x =
     (case x of
        PList xs \<Rightarrow> Inr xs
      | PDict d \<Rightarrow> Inr (map fst d)
      | PStr s \<Rightarrow> Inr (map (\<lambda>c. PStr [c]) s)
      | _ \<Rightarrow> Inl TypeError)"

text \<open>\<^verbatim>\<open>x in c\<close>: key lookup in a dict (the key must be hashable), membership by \<^verbatim>\<open>==\<close> in
  a list, substring in a str (both must be str).\<close>

definition py_in :: "pyval \<Rightarrow> pyval \<Rightarrow> pyerror + bool" where
  "py_in x c =
     (case c of
        PDict d \<Rightarrow> (if hashable x then Inr (dict_get d x \<noteq> None) else Inl TypeError)
      | PList ys \<Rightarrow> Inr (list_ex (\<lambda>y. py_eq y x) ys)
      | PStr t \<Rightarrow> (case x of PStr s \<Rightarrow> Inr (occurs_in s t) | _ \<Rightarrow> Inl TypeError)
      | _ \<Rightarrow> Inl TypeError)"

text \<open>\<^verbatim>\<open>xs[i]\<close> on a sequence: positions \<open>0\<close> to \<open>len - 1\<close> from the front, \<open>-1\<close> down to
  \<open>-len\<close> from the back, \<^verbatim>\<open>IndexError\<close> outside.\<close>

definition seq_index :: "'a list \<Rightarrow> int \<Rightarrow> pyerror + 'a" where
  "seq_index xs i =
     (if 0 \<le> i \<and> i < int (length xs) then Inr (xs ! nat i)
      else if i < 0 \<and> - int (length xs) \<le> i then Inr (xs ! nat (int (length xs) + i))
      else Inl IndexError)"

text \<open>\<^verbatim>\<open>c[x]\<close>: a dict by key, a list or str by an int (a bool is an int).\<close>

definition py_index :: "pyval \<Rightarrow> pyval \<Rightarrow> pyerror + pyval" where
  "py_index c x =
     (case c of
        PDict d \<Rightarrow>
          (if hashable x
           then (case dict_get d x of Some v \<Rightarrow> Inr v | None \<Rightarrow> Inl KeyError)
           else Inl TypeError)
      | PList ys \<Rightarrow>
          (case x of
             PInt i \<Rightarrow> seq_index ys i
           | PBool b \<Rightarrow> seq_index ys (if b then 1 else 0)
           | _ \<Rightarrow> Inl TypeError)
      | PStr t \<Rightarrow>
          (case x of
             PInt i \<Rightarrow> seq_index (map (\<lambda>c. PStr [c]) t) i
           | PBool b \<Rightarrow> seq_index (map (\<lambda>c. PStr [c]) t) (if b then 1 else 0)
           | _ \<Rightarrow> Inl TypeError)
      | _ \<Rightarrow> Inl TypeError)"

section \<open>Normalisation: lines 47 to 110 of \<^verbatim>\<open>import_oca_package\<close>\<close>

text \<open>
  The function is modelled from the parsed document \<^verbatim>\<open>data\<close> on. Its other inputs are
  \<^verbatim>\<open>schema_name\<close> (the file's base name without \<^verbatim>\<open>.json\<close>), the string that
  \<^verbatim>\<open>str(uuid.uuid4())\<close> returns when it is called, and \<^verbatim>\<open>json.dumps\<close>, a function from
  values to strings.
\<close>

text \<open>\<^verbatim>\<open>o = overlays.get(name, {}); o.get(field, {}) if o else {}\<close>
  (lines 66-67, 88-89 and 92-93).\<close>

definition overlay_field :: "pyval \<Rightarrow> string \<Rightarrow> string \<Rightarrow> pyerror + pyval" where
  "overlay_field overlays name field =
     bind (py_get overlays (PStr name) (PDict [])) (\<lambda>overlay.
       if truthy overlay then py_get overlay (PStr field) (PDict []) else Inr (PDict []))"

text \<open>\<^verbatim>\<open>acc.setdefault(attr, {})[lang] = value\<close> (lines 76 and 85): the inner dict is the
  one already stored for \<^verbatim>\<open>attr\<close>, or a new empty one; \<^verbatim>\<open>lang\<close> must be hashable.\<close>

type_synonym by_language = "(pyval \<times> (pyval \<times> pyval) list) list"

definition put_language :: "by_language \<Rightarrow> pyval \<Rightarrow> pyval \<Rightarrow> pyval \<Rightarrow> pyerror + by_language" where
  "put_language acc lang attr val =
     (if hashable lang
      then Inr (dict_set acc attr
                  (dict_set (case dict_get acc attr of None \<Rightarrow> [] | Some inner \<Rightarrow> inner) lang val))
      else Inl TypeError)"

text \<open>The inner loop \<^verbatim>\<open>for attr, value in attr_info.items()\<close> (lines 75-76, 84-85).\<close>

fun fold_items :: "by_language \<Rightarrow> pyval \<Rightarrow> (pyval \<times> pyval) list \<Rightarrow> pyerror + by_language" where
  "fold_items acc lang [] = Inr acc"
| "fold_items acc lang ((attr, val) # rest) =
     bind (put_language acc lang attr val) (\<lambda>acc'. fold_items acc' lang rest)"

text \<open>The outer loop over the language-tagged overlay entries (lines 72-76 with
  \<^verbatim>\<open>field = "attribute_information"\<close>, lines 81-85 with \<^verbatim>\<open>"attribute_entries"\<close>).\<close>

fun fold_overlays :: "string \<Rightarrow> by_language \<Rightarrow> pyval list \<Rightarrow> pyerror + by_language" where
  "fold_overlays field acc [] = Inr acc"
| "fold_overlays field acc (entry # rest) =
     bind (py_get entry (PStr ''language'') (PStr ''unknown'')) (\<lambda>lang.
     bind (py_get entry (PStr field) (PDict [])) (\<lambda>attr_info.
     bind (py_items attr_info) (\<lambda>items.
     bind (fold_items acc lang items) (\<lambda>acc'.
     fold_overlays field acc' rest))))"

text \<open>\<^verbatim>\<open>overlays.get(name, [])\<close> folded from the empty dict (lines 70-76, 79-85).\<close>

definition language_overlay :: "pyval \<Rightarrow> string \<Rightarrow> string \<Rightarrow> pyerror + by_language" where
  "language_overlay overlays name field =
     bind (py_get overlays (PStr name) (PList [])) (\<lambda>entries.
     bind (py_iter entries) (\<lambda>es. fold_overlays field [] es))"

text \<open>Lines 101-110. \<^verbatim>\<open>ordering_data\<close> is either \<^verbatim>\<open>{}\<close> (here \<open>None\<close>) or a dict of the two
  orderings (here the pair of them), which is never empty.\<close>

definition ordering_of :: "pyval \<Rightarrow> pyval \<Rightarrow> pyerror + (pyval \<times> pyval) option" where
  "ordering_of data capture_base_id =
     bind (py_get data (PStr ''extensions'') (PDict [])) (\<lambda>extensions.
     bind (py_get extensions (PStr ''adc'') (PDict [])) (\<lambda>adc_extension.
     bind (py_in capture_base_id adc_extension) (\<lambda>present.
       if present then
         bind (py_index adc_extension capture_base_id) (\<lambda>extension.
         bind (py_get extension (PStr ''overlays'') (PDict [])) (\<lambda>ordering_overlays.
         bind (py_get ordering_overlays (PStr ''ordering'') (PDict [])) (\<lambda>ordering.
         bind (py_get ordering (PStr ''attribute_ordering'') (PList [])) (\<lambda>attribute_ordering.
         bind (py_get ordering (PStr ''entry_code_ordering'') (PDict [])) (\<lambda>entry_code_ordering.
         Inr (Some (attribute_ordering, entry_code_ordering)))))))
       else Inr None)))"

record normalized =
  schema_id :: pyval
  schema_name :: string
  capture_base_id :: pyval
  schema_type :: pyval
  attributes :: pyval
  units :: pyval
  attribute_descriptions :: by_language
  controlled_vocabularies :: by_language
  entry_codes :: pyval
  attribute_formats :: pyval
  meta_overlays :: pyval
  ordering_data :: "(pyval \<times> pyval) option"

text \<open>\<^verbatim>\<open>data.get("d") or str(uuid.uuid4())\<close> (line 52).\<close>

definition schema_id_of :: "string \<Rightarrow> pyval \<Rightarrow> pyerror + pyval" where
  "schema_id_of fresh data =
     bind (py_get data (PStr ''d'') PNone) (\<lambda>d. Inr (if truthy d then d else PStr fresh))"

text \<open>Everything the function computes before it opens the session, in the order of the
  source. \<^verbatim>\<open>data.get("type", "oca_package/1.0")\<close> is evaluated at line 128, where \<^verbatim>\<open>data\<close>
  is known to be a dict.\<close>

definition normalize :: "string \<Rightarrow> string \<Rightarrow> pyval \<Rightarrow> pyerror + normalized" where
  "normalize fresh name data =
     bind (py_get data (PStr ''oca_bundle'') (PDict [])) (\<lambda>oca_bundle.
     bind (py_get oca_bundle (PStr ''bundle'') (PDict [])) (\<lambda>bundle.
     bind (py_get bundle (PStr ''capture_base'') (PDict [])) (\<lambda>capture_base.
     bind (schema_id_of fresh data) (\<lambda>sid.
     bind (py_get capture_base (PStr ''d'') PNone) (\<lambda>cbid.
     bind (py_get capture_base (PStr ''attributes'') (PDict [])) (\<lambda>attrs.
     bind (py_get bundle (PStr ''overlays'') (PDict [])) (\<lambda>overlays.
     bind (overlay_field overlays ''unit'' ''attribute_unit'') (\<lambda>us.
     bind (language_overlay overlays ''information'' ''attribute_information'') (\<lambda>descs.
     bind (language_overlay overlays ''entry'' ''attribute_entries'') (\<lambda>vocs.
     bind (overlay_field overlays ''entry_code'' ''attribute_entry_codes'') (\<lambda>codes.
     bind (overlay_field overlays ''format'' ''attribute_formats'') (\<lambda>formats.
     bind (py_get overlays (PStr ''meta'') (PList [])) (\<lambda>metas.
     bind (ordering_of data cbid) (\<lambda>ordering.
     bind (py_get data (PStr ''type'') (PStr ''oca_package/1.0'')) (\<lambda>ty.
     Inr \<lparr> schema_id = sid, schema_name = name, capture_base_id = cbid, schema_type = ty,
           attributes = attrs, units = us, attribute_descriptions = descs,
           controlled_vocabularies = vocs, entry_codes = codes, attribute_formats = formats,
           meta_overlays = metas, ordering_data = ordering \<rparr>)))))))))))))))"

section \<open>Emission: lines 115 to 193\<close>

text \<open>One constructor for each of the four Cypher statements of the source, with the
  parameters that \<^verbatim>\<open>session.run\<close> passes.\<close>

datatype stmt =
    MergeSchema pyval pyval pyval pyval
      \<comment> \<open>\<open>schema_id\<close>, \<open>schema_name\<close>, \<open>capture_base_id\<close>, \<open>schema_type\<close>\<close>
  | MergeAttribute pyval pyval pyval pyval pyval pyval pyval pyval
      \<comment> \<open>\<open>attr_name\<close>, \<open>attr_type\<close>, \<open>attr_unit\<close>, \<open>attr_description\<close>, \<open>attr_format\<close>,
          \<open>attr_vocabulary\<close>, \<open>attr_codes\<close>, \<open>schema_id\<close>\<close>
  | MergeMeta pyval pyval pyval pyval
      \<comment> \<open>\<open>meta_name\<close>, \<open>meta_desc\<close>, \<open>meta_language\<close>, \<open>schema_id\<close>\<close>
  | SetOrdering pyval pyval pyval
      \<comment> \<open>\<open>schema_id\<close>, \<open>attribute_ordering\<close>, \<open>entry_code_ordering\<close>\<close>

text \<open>What a part of the function has done when it ends: the statements it has run, and
  the exception it raised, if any.\<close>

type_synonym emission = "stmt list \<times> pyerror option"

definition andthen :: "emission \<Rightarrow> emission \<Rightarrow> emission" where
  "andthen a b = (case snd a of Some e \<Rightarrow> a | None \<Rightarrow> (fst a @ fst b, snd b))"

text \<open>\<^verbatim>\<open>json.dumps(x) if x else None\<close> (lines 134, 157, 158).\<close>

definition dumps_or_none :: "(pyval \<Rightarrow> string) \<Rightarrow> pyval \<Rightarrow> pyval" where
  "dumps_or_none dumps x = (if truthy x then PStr (dumps x) else PNone)"

text \<open>\<^verbatim>\<open>d.get(attr_name)\<close> on one of the two dicts the function built itself.\<close>

definition by_language_get :: "by_language \<Rightarrow> pyval \<Rightarrow> pyval" where
  "by_language_get acc attr = (case dict_get acc attr of None \<Rightarrow> PNone | Some inner \<Rightarrow> PDict inner)"

text \<open>The body of the loop over the attributes (lines 133-160).\<close>

definition attribute_stmt :: "(pyval \<Rightarrow> string) \<Rightarrow> normalized \<Rightarrow> pyval \<times> pyval \<Rightarrow> pyerror + stmt" where
  "attribute_stmt dumps n item =
     (case item of (attr_name, attr_type) \<Rightarrow>
        bind (py_get (units n) attr_name PNone) (\<lambda>attr_unit.
        let attr_description =
              dumps_or_none dumps (by_language_get (attribute_descriptions n) attr_name) in
        bind (py_get (attribute_formats n) attr_name PNone) (\<lambda>attr_format.
        let attr_vocabulary = by_language_get (controlled_vocabularies n) attr_name in
        bind (py_get (entry_codes n) attr_name PNone) (\<lambda>attr_codes.
        Inr (MergeAttribute attr_name attr_type attr_unit attr_description attr_format
               (dumps_or_none dumps attr_vocabulary) (dumps_or_none dumps attr_codes)
               (schema_id n))))))"

fun emit_attributes :: "(pyval \<Rightarrow> string) \<Rightarrow> normalized \<Rightarrow> (pyval \<times> pyval) list \<Rightarrow> emission" where
  "emit_attributes dumps n [] = ([], None)"
| "emit_attributes dumps n (item # rest) =
     (case attribute_stmt dumps n item of
        Inl e \<Rightarrow> ([], Some e)
      | Inr s \<Rightarrow> andthen ([s], None) (emit_attributes dumps n rest))"

text \<open>The body of the loop over the meta overlays (lines 164-180): a statement only
  \<^verbatim>\<open>if meta_name\<close>.\<close>

definition meta_stmt :: "normalized \<Rightarrow> pyval \<Rightarrow> pyerror + stmt list" where
  "meta_stmt n meta =
     bind (py_get meta (PStr ''name'') PNone) (\<lambda>meta_name.
     bind (py_get meta (PStr ''description'') PNone) (\<lambda>meta_desc.
     bind (py_get meta (PStr ''language'') (PStr ''unknown'')) (\<lambda>meta_language.
     Inr (if truthy meta_name
          then [MergeMeta meta_name meta_desc meta_language (schema_id n)]
          else []))))"

fun emit_metas :: "normalized \<Rightarrow> pyval list \<Rightarrow> emission" where
  "emit_metas n [] = ([], None)"
| "emit_metas n (meta # rest) =
     (case meta_stmt n meta of
        Inl e \<Rightarrow> ([], Some e)
      | Inr ss \<Rightarrow> andthen (ss, None) (emit_metas n rest))"

text \<open>Lines 183-193: \<^verbatim>\<open>if ordering_data\<close>.\<close>

definition emit_ordering :: "(pyval \<Rightarrow> string) \<Rightarrow> normalized \<Rightarrow> emission" where
  "emit_ordering dumps n =
     (case ordering_data n of
        None \<Rightarrow> ([], None)
      | Some (attribute_ordering, entry_code_ordering) \<Rightarrow>
          ([SetOrdering (schema_id n) attribute_ordering (PStr (dumps entry_code_ordering))], None))"

definition emit :: "(pyval \<Rightarrow> string) \<Rightarrow> normalized \<Rightarrow> emission" where
  "emit dumps n =
     andthen ([MergeSchema (schema_id n) (PStr (schema_name n)) (capture_base_id n) (schema_type n)], None)
    (andthen (case py_items (attributes n) of
                Inl e \<Rightarrow> ([], Some e)
              | Inr items \<Rightarrow> emit_attributes dumps n items)
    (andthen (case py_iter (meta_overlays n) of
                Inl e \<Rightarrow> ([], Some e)
              | Inr metas \<Rightarrow> emit_metas n metas)
             (emit_ordering dumps n)))"

text \<open>The whole function: the statements it runs, in order, and how it ends.\<close>

definition import_oca_package :: "(pyval \<Rightarrow> string) \<Rightarrow> string \<Rightarrow> string \<Rightarrow> pyval \<Rightarrow> emission" where
  "import_oca_package dumps fresh name data =
     (case normalize fresh name data of
        Inl e \<Rightarrow> ([], Some e)
      | Inr n \<Rightarrow> emit dumps n)"

section \<open>The graph and the four Cypher statements\<close>

text \<open>
  The store is the property graph the statements are run against: nodes with one label
  and their properties, kept in the order of their creation (a node is known by its
  position), and directed typed edges. A property holds a value that is not null:
  setting a property to null removes it, a pattern with a null value matches no node,
  and \<^verbatim>\<open>MERGE\<close> rejects a null value in its pattern.
\<close>

record node =
  label :: string
  props :: "string \<rightharpoonup> pyval"

record graph =
  nodes :: "node list"
  edges :: "(nat \<times> string \<times> nat) set"

definition empty_graph :: graph where
  "empty_graph = \<lparr> nodes = [], edges = {} \<rparr>"

text \<open>The node pattern \<^verbatim>\<open>(n:Label {k1: v1, ...})\<close>.\<close>

definition matches :: "string \<Rightarrow> (string \<times> pyval) list \<Rightarrow> node \<Rightarrow> bool" where
  "matches lbl key n =
     (label n = lbl \<and> list_all (\<lambda>(k, v). v \<noteq> PNone \<and> props n k = Some v) key)"

definition match_ids :: "string \<Rightarrow> (string \<times> pyval) list \<Rightarrow> graph \<Rightarrow> nat list" where
  "match_ids lbl key g = filter (\<lambda>i. matches lbl key (nodes g ! i)) [0..<length (nodes g)]"

definition null_in :: "(string \<times> pyval) list \<Rightarrow> bool" where
  "null_in key = list_ex (\<lambda>(k, v). v = PNone) key"

text \<open>\<^verbatim>\<open>MERGE (n:Label {key})\<close>: the nodes that match, or else one new node with the
  properties of the pattern.\<close>

definition merge_node :: "string \<Rightarrow> (string \<times> pyval) list \<Rightarrow> graph \<Rightarrow> graph" where
  "merge_node lbl key g =
     (if list_ex (matches lbl key) (nodes g) then g
      else g\<lparr>nodes := nodes g @ [\<lparr> label = lbl, props = map_of key \<rparr>]\<rparr>)"

text \<open>\<^verbatim>\<open>SET n.k = v\<close>, one assignment after the other, on every node bound to \<^verbatim>\<open>n\<close>.\<close>

definition set_prop :: "string \<times> pyval \<Rightarrow> (string \<rightharpoonup> pyval) \<Rightarrow> (string \<rightharpoonup> pyval)" where
  "set_prop kv m = (if snd kv = PNone then m(fst kv := None) else m(fst kv \<mapsto> snd kv))"

definition set_props :: "(string \<times> pyval) list \<Rightarrow> (string \<rightharpoonup> pyval) \<Rightarrow> (string \<rightharpoonup> pyval)" where
  "set_props kvs m = fold set_prop kvs m"

definition set_matching ::
  "string \<Rightarrow> (string \<times> pyval) list \<Rightarrow> (string \<times> pyval) list \<Rightarrow> graph \<Rightarrow> graph" where
  "set_matching lbl key kvs g =
     g\<lparr>nodes := map (\<lambda>n. if matches lbl key n then n\<lparr>props := set_props kvs (props n)\<rparr> else n)
                    (nodes g)\<rparr>"

text \<open>\<^verbatim>\<open>WITH n MATCH (s:Schema {id: $schema_id}) MERGE (s)-[:TYPE]->(n)\<close>: an edge from every
  matching Schema node to every node bound to \<^verbatim>\<open>n\<close>, unless there is one already.\<close>

definition merge_edges ::
  "string \<Rightarrow> pyval \<Rightarrow> string \<Rightarrow> (string \<times> pyval) list \<Rightarrow> graph \<Rightarrow> graph" where
  "merge_edges ty sid lbl key g =
     g\<lparr>edges := edges g \<union>
          set (map (\<lambda>(i, j). (i, ty, j))
                 (List.product (match_ids ''Schema'' [(''id'', sid)] g) (match_ids lbl key g)))\<rparr>"

text \<open>One \<^verbatim>\<open>session.run\<close>: the graph after the statement, or \<open>None\<close> when the store rejects
  it (a null in the pattern of a \<^verbatim>\<open>MERGE\<close>), which raises in the caller.\<close>

fun exec :: "graph \<Rightarrow> stmt \<Rightarrow> graph option" where
  "exec g (MergeSchema sid name cbid ty) =
     (if null_in [(''id'', sid)] then None
      else Some (set_matching ''Schema'' [(''id'', sid)]
                   [(''name'', name), (''displayName'', name),
                    (''capture_base_id'', cbid), (''type'', ty)]
                (merge_node ''Schema'' [(''id'', sid)] g)))"
| "exec g (MergeAttribute name ty unit desc fmt voc codes sid) =
     (if null_in [(''name'', name)] then None
      else Some (merge_edges ''HAS_ATTRIBUTE'' sid ''Attribute'' [(''name'', name)]
                (set_matching ''Attribute'' [(''name'', name)]
                   [(''type'', ty), (''unit'', unit), (''description'', desc),
                    (''format'', fmt), (''vocabulary'', voc), (''codes'', codes)]
                (merge_node ''Attribute'' [(''name'', name)] g))))"
| "exec g (MergeMeta name desc lang sid) =
     (if null_in [(''name'', name), (''schema_id'', sid), (''language'', lang)] then None
      else Some (merge_edges ''HAS_META'' sid ''Meta''
                   [(''name'', name), (''schema_id'', sid), (''language'', lang)]
                (set_matching ''Meta''
                   [(''name'', name), (''schema_id'', sid), (''language'', lang)]
                   [(''description'', desc)]
                (merge_node ''Meta''
                   [(''name'', name), (''schema_id'', sid), (''language'', lang)] g))))"
| "exec g (SetOrdering sid ao eco) =
     Some (set_matching ''Schema'' [(''id'', sid)]
             [(''attribute_ordering'', ao), (''entry_code_ordering'', eco)] g)"

text \<open>The statements of one import, run in order; the first rejected statement ends the
  import, and what was written before it stays.\<close>

fun run :: "graph \<Rightarrow> stmt list \<Rightarrow> graph" where
  "run g [] = g"
| "run g (s # ss) = (case exec g s of None \<Rightarrow> g | Some g' \<Rightarrow> run g' ss)"

text \<open>The graph after \<^verbatim>\<open>import_oca_package\<close> has returned or raised.\<close>

definition import_into ::
  "(pyval \<Rightarrow> string) \<Rightarrow> string \<Rightarrow> string \<Rightarrow> pyval \<Rightarrow> graph \<Rightarrow> graph" where
  "import_into dumps fresh name data g = run g (fst (import_oca_package dumps fresh name data))"

section \<open>Notions used to state the properties\<close>

text \<open>The \<^verbatim>\<open>schema_id\<close> parameter of a statement.\<close>

fun stmt_schema_id :: "stmt \<Rightarrow> pyval" where
  "stmt_schema_id (MergeSchema sid name cbid ty) = sid"
| "stmt_schema_id (MergeAttribute name ty unit desc fmt voc codes sid) = sid"
| "stmt_schema_id (MergeMeta name desc lang sid) = sid"
| "stmt_schema_id (SetOrdering sid ao eco) = sid"

fun is_set_ordering :: "stmt \<Rightarrow> bool" where
  "is_set_ordering (SetOrdering sid ao eco) = True"
| "is_set_ordering s = False"

fun is_str :: "pyval \<Rightarrow> bool" where
  "is_str (PStr s) = True"
| "is_str v = False"

fun is_dict :: "pyval \<Rightarrow> bool" where
  "is_dict (PDict d) = True"
| "is_dict v = False"

text \<open>What a property holds after \<^verbatim>\<open>SET n.k = v\<close>: nothing when \<open>v\<close> is null.\<close>

definition stored :: "pyval \<Rightarrow> pyval option" where
  "stored v = (if v = PNone then None else Some v)"

text \<open>The value of \<^verbatim>\<open>x.get(attr)\<close> when it returns: \<^verbatim>\<open>None\<close> for a dict without the key.\<close>

definition overlay_value :: "pyval \<Rightarrow> pyval \<Rightarrow> pyval" where
  "overlay_value x attr =
     (case x of
        PDict d \<Rightarrow> (case dict_get d attr of Some v \<Rightarrow> v | None \<Rightarrow> PNone)
      | _ \<Rightarrow> PNone)"

text \<open>The entry for an attribute and a language in a folded overlay.\<close>

definition lookup2 :: "by_language \<Rightarrow> pyval \<Rightarrow> pyval \<Rightarrow> pyval option" where
  "lookup2 acc attr lang =
     (case dict_get acc attr of None \<Rightarrow> None | Some inner \<Rightarrow> dict_get inner lang)"

text \<open>
  The folding of the language overlays as the specification words it: every overlay
  entry writes, for each attribute it names, its value under (attribute, language), in
  the order of the entries; the last write to a pair is the one that counts.
\<close>

definition entry_writes :: "string \<Rightarrow> pyval \<Rightarrow> (pyval \<times> pyval \<times> pyval) list" where
  "entry_writes field entry =
     (case entry of
        PDict e \<Rightarrow>
          (case dict_get e (PStr field) of
             Some (PDict items) \<Rightarrow>
               map (\<lambda>(attr, v).
                      (attr,
                       (case dict_get e (PStr ''language'') of
                          Some l \<Rightarrow> l | None \<Rightarrow> PStr ''unknown''),
                       v))
                   items
           | _ \<Rightarrow> [])
      | _ \<Rightarrow> [])"

fun last_write :: "(pyval \<times> pyval \<times> pyval) list \<Rightarrow> pyval \<Rightarrow> pyval \<Rightarrow> pyval option" where
  "last_write [] attr lang = None"
| "last_write ((a, l, v) # ws) attr lang =
     (case last_write ws attr lang of
        Some v' \<Rightarrow> Some v'
      | None \<Rightarrow> if key_eq a attr \<and> key_eq l lang then Some v else None)"


fun is_merge_meta :: "stmt \<Rightarrow> bool" where
  "is_merge_meta (MergeMeta name desc lang sid) = True"
| "is_merge_meta s = False"

text \<open>The \<^verbatim>\<open>overlays\<close> of a document, as lines 47, 48 and 63 reach them.\<close>

definition overlays_of :: "pyval \<Rightarrow> pyerror + pyval" where
  "overlays_of data =
     bind (py_get data (PStr ''oca_bundle'') (PDict [])) (\<lambda>oca_bundle.
     bind (py_get oca_bundle (PStr ''bundle'') (PDict [])) (\<lambda>bundle.
     py_get bundle (PStr ''overlays'') (PDict [])))"

text \<open>
  The four statements share one form: a node pattern, the assignments of the \<^verbatim>\<open>SET\<close>
  clause, whether \<^verbatim>\<open>MERGE\<close> may create the node, and the type of the edge merged from
  the Schema node, if any.
\<close>

fun pattern :: "stmt \<Rightarrow> string \<times> (string \<times> pyval) list" where
  "pattern (MergeSchema sid name cbid ty) = (''Schema'', [(''id'', sid)])"
| "pattern (MergeAttribute name ty unit desc fmt voc codes sid) =
     (''Attribute'', [(''name'', name)])"
| "pattern (MergeMeta name desc lang sid) =
     (''Meta'', [(''name'', name), (''schema_id'', sid), (''language'', lang)])"
| "pattern (SetOrdering sid ao eco) = (''Schema'', [(''id'', sid)])"

fun assignments :: "stmt \<Rightarrow> (string \<times> pyval) list" where
  "assignments (MergeSchema sid name cbid ty) =
     [(''name'', name), (''displayName'', name), (''capture_base_id'', cbid), (''type'', ty)]"
| "assignments (MergeAttribute name ty unit desc fmt voc codes sid) =
     [(''type'', ty), (''unit'', unit), (''description'', desc),
      (''format'', fmt), (''vocabulary'', voc), (''codes'', codes)]"
| "assignments (MergeMeta name desc lang sid) = [(''description'', desc)]"
| "assignments (SetOrdering sid ao eco) =
     [(''attribute_ordering'', ao), (''entry_code_ordering'', eco)]"

fun creates :: "stmt \<Rightarrow> bool" where
  "creates (SetOrdering sid ao eco) = False"
| "creates s = True"

fun edge_type :: "stmt \<Rightarrow> string option" where
  "edge_type (MergeAttribute name ty unit desc fmt voc codes sid) = Some ''HAS_ATTRIBUTE''"
| "edge_type (MergeMeta name desc lang sid) = Some ''HAS_META''"
| "edge_type s = None"

fun is_merge_schema :: "stmt \<Rightarrow> bool" where
  "is_merge_schema (MergeSchema sid name cbid ty) = True"
| "is_merge_schema s = False"

text \<open>The store rejects the statement.\<close>

definition rejected :: "stmt \<Rightarrow> bool" where
  "rejected s = (creates s \<and> null_in (snd (pattern s)))"

text \<open>The node matches the pattern of the statement; what the statement does to a node;
  the node a \<^verbatim>\<open>MERGE\<close> creates.\<close>

definition targets :: "stmt \<Rightarrow> node \<Rightarrow> bool" where
  "targets s n = matches (fst (pattern s)) (snd (pattern s)) n"

definition upd :: "stmt \<Rightarrow> node \<Rightarrow> node" where
  "upd s n = (if targets s n then n\<lparr>props := set_props (assignments s) (props n)\<rparr> else n)"

definition fresh_node :: "stmt \<Rightarrow> node" where
  "fresh_node s = \<lparr> label = fst (pattern s), props = map_of (snd (pattern s)) \<rparr>"

definition is_schema :: "pyval \<Rightarrow> node \<Rightarrow> bool" where
  "is_schema sid n = matches ''Schema'' [(''id'', sid)] n"

text \<open>A node matches the pattern of the statement; the Schema node of the statement is
  there; every Schema node of the statement has its edge to every node of the pattern.\<close>

definition present :: "stmt \<Rightarrow> graph \<Rightarrow> bool" where
  "present s g = list_ex (targets s) (nodes g)"

definition has_schema :: "pyval \<Rightarrow> graph \<Rightarrow> bool" where
  "has_schema sid g = list_ex (is_schema sid) (nodes g)"

definition pairs :: "stmt \<Rightarrow> graph \<Rightarrow> (nat \<times> nat) set" where
  "pairs s g =
     {(i, j). i < length (nodes g) \<and> j < length (nodes g)
            \<and> is_schema (stmt_schema_id s) (nodes g ! i) \<and> targets s (nodes g ! j)}"

definition linked :: "stmt \<Rightarrow> graph \<Rightarrow> bool" where
  "linked s g =
     (case edge_type s of
        None \<Rightarrow> True
      | Some ty \<Rightarrow> (\<lambda>(i, j). (i, ty, j)) ` pairs s g \<subseteq> edges g)"

definition settled :: "stmt \<Rightarrow> graph \<Rightarrow> bool" where
  "settled s g =
     ((if creates s then present s g else True)
      \<and> has_schema (stmt_schema_id s) g \<and> linked s g)"

text \<open>The number of nodes that match the pattern of a statement.\<close>

definition cnt :: "stmt \<Rightarrow> graph \<Rightarrow> nat" where
  "cnt s g = length (filter (targets s) (nodes g))"

text \<open>The assignments a list of statements makes to a node, in order; a graph whose
  nodes the statements leave as they are.\<close>

definition acts :: "stmt list \<Rightarrow> node \<Rightarrow> (string \<times> pyval) list" where
  "acts ss n = concat (map assignments (filter (\<lambda>s. targets s n) ss))"

definition fixed :: "stmt list \<Rightarrow> graph \<Rightarrow> bool" where
  "fixed ss g = list_all (\<lambda>n. fold upd ss n = n) (nodes g)"

text \<open>The statements of one import: all for one schema id, the Schema statement first.\<close>

definition shaped :: "pyval \<Rightarrow> stmt list \<Rightarrow> bool" where
  "shaped sid ss =
     (list_all (\<lambda>s. stmt_schema_id s = sid) ss
      \<and> (case ss of [] \<Rightarrow> True | s # rest \<Rightarrow> is_merge_schema s))"

text \<open>\<^verbatim>\<open>import_oca_package\<close> returns: it raises nothing itself, and the store rejects none
  of its statements.\<close>

definition returns :: "emission \<Rightarrow> bool" where
  "returns em = (snd em = None \<and> list_all (\<lambda>s. \<not> rejected s) (fst em))"

text \<open>Every Meta node of the graph has a truthy name.\<close>

definition named_metas :: "graph \<Rightarrow> bool" where
  "named_metas g =
     list_all (\<lambda>nd. if label nd = ''Meta''
                     then (case props nd ''name'' of None \<Rightarrow> False | Some v \<Rightarrow> truthy v)
                     else True)
              (nodes g)"

text \<open>The name of a Meta statement is truthy.\<close>

fun named :: "stmt \<Rightarrow> bool" where
  "named (MergeMeta name desc lang sid) = truthy name"
| "named s = True"

text \<open>Every node that matches the pattern of the statement holds what the statement
  assigns.\<close>

definition assigned :: "stmt \<Rightarrow> graph \<Rightarrow> bool" where
  "assigned s g =
     list_all (\<lambda>nd. if targets s nd then (\<exists>m. props nd = set_props (assignments s) m) else True)
              (nodes g)"

section \<open>Basic facts\<close>

lemma bind_Inl [simp]: "bind (Inl e) f = Inl e"
  by (simp add: bind_def)

lemma bind_Inr [simp]: "bind (Inr x) f = f x"
  by (simp add: bind_def)

lemma bind_eq_Inr: "bind m f = Inr y \<longleftrightarrow> (\<exists>x. m = Inr x \<and> f x = Inr y)"
  by (cases m) simp_all

lemma key_eq_PStr [simp]: "key_eq (PStr a) (PStr b) = (a = b)"
  by (simp add: key_eq_def)

lemma py_get_PDict [simp]:
  "py_get (PDict d) k dflt = Inr (case dict_get d k of Some v \<Rightarrow> v | None \<Rightarrow> dflt)"
  by (simp add: py_get_def)

lemma fst_andthen: "set (fst (andthen a b)) \<subseteq> set (fst a) \<union> set (fst b)"
  by (auto simp: andthen_def split: option.splits)

lemma attribute_stmt_schema_id:
  "attribute_stmt dumps n item = Inr s \<Longrightarrow> stmt_schema_id s = schema_id n"
  by (cases item) (auto simp: attribute_stmt_def bind_eq_Inr Let_def)

lemma emit_attributes_schema_id:
  "s \<in> set (fst (emit_attributes dumps n items)) \<Longrightarrow> stmt_schema_id s = schema_id n"
proof (induction items)
  case Nil
  then show ?case by simp
next
  case (Cons item items)
  show ?case
  proof (cases "attribute_stmt dumps n item")
    case (Inl e)
    with Cons.prems show ?thesis by simp
  next
    case (Inr s')
    with Cons.prems have "s \<in> set (fst (andthen ([s'], None) (emit_attributes dumps n items)))"
      by simp
    then have "s = s' \<or> s \<in> set (fst (emit_attributes dumps n items))"
      using fst_andthen [of "([s'], None)" "emit_attributes dumps n items"] by auto
    then show ?thesis
      using Cons.IH attribute_stmt_schema_id [OF Inr] by auto
  qed
qed

lemma meta_stmt_schema_id:
  "meta_stmt n meta = Inr ss \<Longrightarrow> s \<in> set ss \<Longrightarrow> stmt_schema_id s = schema_id n"
  by (auto simp: meta_stmt_def bind_eq_Inr split: if_splits)

lemma emit_metas_schema_id:
  "s \<in> set (fst (emit_metas n metas)) \<Longrightarrow> stmt_schema_id s = schema_id n"
proof (induction metas)
  case Nil
  then show ?case by simp
next
  case (Cons meta metas)
  show ?case
  proof (cases "meta_stmt n meta")
    case (Inl e)
    with Cons.prems show ?thesis by simp
  next
    case (Inr ss)
    with Cons.prems have "s \<in> set (fst (andthen (ss, None) (emit_metas n metas)))"
      by simp
    then have "s \<in> set ss \<or> s \<in> set (fst (emit_metas n metas))"
      using fst_andthen [of "(ss, None)" "emit_metas n metas"] by auto
    then show ?thesis
      using Cons.IH meta_stmt_schema_id [OF Inr] by auto
  qed
qed

lemma emit_ordering_schema_id:
  "s \<in> set (fst (emit_ordering dumps n)) \<Longrightarrow> stmt_schema_id s = schema_id n"
  by (auto simp: emit_ordering_def split: option.splits)

lemma emit_schema_id:
  assumes "s \<in> set (fst (emit dumps n))"
  shows "stmt_schema_id s = schema_id n"
proof -
  let ?a = "case py_items (attributes n) of Inl e \<Rightarrow> ([], Some e)
            | Inr items \<Rightarrow> emit_attributes dumps n items"
  let ?m = "case py_iter (meta_overlays n) of Inl e \<Rightarrow> ([], Some e)
            | Inr metas \<Rightarrow> emit_metas n metas"
  have a: "x \<in> set (fst ?a) \<Longrightarrow> stmt_schema_id x = schema_id n" for x
    by (cases "py_items (attributes n)") (auto dest: emit_attributes_schema_id)
  have m: "x \<in> set (fst ?m) \<Longrightarrow> stmt_schema_id x = schema_id n" for x
    by (cases "py_iter (meta_overlays n)") (auto dest: emit_metas_schema_id)
  from assms have "s \<in> {MergeSchema (schema_id n) (PStr (schema_name n)) (capture_base_id n) (schema_type n)}
      \<union> set (fst ?a) \<union> set (fst ?m) \<union> set (fst (emit_ordering dumps n))"
    unfolding emit_def
    using fst_andthen [of "([MergeSchema (schema_id n) (PStr (schema_name n)) (capture_base_id n) (schema_type n)], None)"
                 "andthen ?a (andthen ?m (emit_ordering dumps n))"]
          fst_andthen [of ?a "andthen ?m (emit_ordering dumps n)"]
          fst_andthen [of ?m "emit_ordering dumps n"]
    by auto
  then show ?thesis
    using a m emit_ordering_schema_id by auto
qed

lemma normalize_schema_id:
  assumes "normalize fresh name data = Inr n"
  shows "schema_id_of fresh data = Inr (schema_id n)"
  using assms unfolding normalize_def
  by (auto simp: bind_eq_Inr)

subsection \<open>The statements of an import\<close>

lemma normalize_ordering:
  assumes "normalize fresh name data = Inr n"
  shows "ordering_of data (capture_base_id n) = Inr (ordering_data n)"
  using assms unfolding normalize_def
  by (auto simp: bind_eq_Inr)

lemma emit_attributes_no_ordering:
  "s \<in> set (fst (emit_attributes dumps n items)) \<Longrightarrow> \<not> is_set_ordering s"
proof (induction items)
  case Nil
  then show ?case by simp
next
  case (Cons item items)
  show ?case
  proof (cases "attribute_stmt dumps n item")
    case (Inl e)
    with Cons.prems show ?thesis by simp
  next
    case (Inr s')
    then have "\<not> is_set_ordering s'"
      by (cases item) (auto simp: attribute_stmt_def bind_eq_Inr Let_def)
    moreover from Inr Cons.prems
    have "s = s' \<or> s \<in> set (fst (emit_attributes dumps n items))"
      using fst_andthen [of "([s'], None)" "emit_attributes dumps n items"] by auto
    ultimately show ?thesis using Cons.IH by auto
  qed
qed

lemma emit_metas_no_ordering:
  "s \<in> set (fst (emit_metas n metas)) \<Longrightarrow> \<not> is_set_ordering s"
proof (induction metas)
  case Nil
  then show ?case by simp
next
  case (Cons meta metas)
  show ?case
  proof (cases "meta_stmt n meta")
    case (Inl e)
    with Cons.prems show ?thesis by simp
  next
    case (Inr ss)
    then have "x \<in> set ss \<Longrightarrow> \<not> is_set_ordering x" for x
      by (auto simp: meta_stmt_def bind_eq_Inr split: if_splits)
    moreover from Inr Cons.prems
    have "s \<in> set ss \<or> s \<in> set (fst (emit_metas n metas))"
      using fst_andthen [of "(ss, None)" "emit_metas n metas"] by auto
    ultimately show ?thesis using Cons.IH by auto
  qed
qed

lemma emit_no_ordering:
  assumes "ordering_data n = None" and "s \<in> set (fst (emit dumps n))"
  shows "\<not> is_set_ordering s"
proof -
  let ?a = "case py_items (attributes n) of Inl e \<Rightarrow> ([], Some e)
            | Inr items \<Rightarrow> emit_attributes dumps n items"
  let ?m = "case py_iter (meta_overlays n) of Inl e \<Rightarrow> ([], Some e)
            | Inr metas \<Rightarrow> emit_metas n metas"
  have a: "x \<in> set (fst ?a) \<Longrightarrow> \<not> is_set_ordering x" for x
    by (cases "py_items (attributes n)") (auto dest: emit_attributes_no_ordering)
  have m: "x \<in> set (fst ?m) \<Longrightarrow> \<not> is_set_ordering x" for x
    by (cases "py_iter (meta_overlays n)") (auto dest: emit_metas_no_ordering)
  have o: "fst (emit_ordering dumps n) = []"
    using assms(1) by (simp add: emit_ordering_def)
  from assms(2) have "s \<in> {MergeSchema (schema_id n) (PStr (schema_name n)) (capture_base_id n) (schema_type n)}
      \<union> set (fst ?a) \<union> set (fst ?m) \<union> set (fst (emit_ordering dumps n))"
    unfolding emit_def
    using fst_andthen [of "([MergeSchema (schema_id n) (PStr (schema_name n)) (capture_base_id n) (schema_type n)], None)"
                 "andthen ?a (andthen ?m (emit_ordering dumps n))"]
          fst_andthen [of ?a "andthen ?m (emit_ordering dumps n)"]
          fst_andthen [of ?m "emit_ordering dumps n"]
    by auto
  then show ?thesis
    using a m o by auto
qed

lemma dict_get_str_keys:
  "list_all is_str (map fst d) \<Longrightarrow> \<not> is_str k \<Longrightarrow> dict_get d k = None"
proof (induction d)
  case Nil
  then show ?case by simp
next
  case (Cons kv d)
  obtain k' v where kv: "kv = (k', v)" by (cases kv)
  with Cons.prems obtain s where "k' = PStr s" by (cases k') auto
  with Cons kv show ?case by (cases k) (auto simp: key_eq_def)
qed

lemma py_get_not_dict: "\<not> is_dict x \<Longrightarrow> py_get x k dflt = Inl AttributeError"
  by (cases x) (simp_all add: py_get_def)

lemma overlay_field_empty [simp]: "overlay_field (PDict []) name field = Inr (PDict [])"
  by (simp add: overlay_field_def)

lemma language_overlay_empty [simp]: "language_overlay (PDict []) name field = Inr []"
  by (simp add: language_overlay_def py_iter_def)

subsection \<open>Dicts and the folding of the language overlays\<close>

lemma key_eq_refl [simp]: "key_eq a a"
  by (simp add: key_eq_def split: option.splits)

lemma key_eq_sym: "key_eq a b \<Longrightarrow> key_eq b a"
  by (auto simp: key_eq_def split: option.splits)

lemma key_eq_trans: "key_eq a b \<Longrightarrow> key_eq b c \<Longrightarrow> key_eq a c"
  by (auto simp: key_eq_def split: option.splits)

lemma key_eq_left: "key_eq k k' \<Longrightarrow> key_eq k x = key_eq k' x"
  using key_eq_sym key_eq_trans by blast

lemma dict_get_dict_set:
  "dict_get (dict_set d k v) k' = (if key_eq k k' then Some v else dict_get d k')"
proof (induction d)
  case Nil
  then show ?case by simp
next
  case (Cons kv d)
  obtain k0 v0 where kv: "kv = (k0, v0)" by (cases kv)
  show ?case
  proof (cases "key_eq k0 k")
    case True
    then show ?thesis using kv key_eq_left [OF True] by simp
  next
    case False
    then have "\<not> (key_eq k0 k' \<and> key_eq k k')"
      using key_eq_sym key_eq_trans by blast
    then show ?thesis using kv False Cons.IH by auto
  qed
qed

lemma dict_get_key_eq: "key_eq k k' \<Longrightarrow> dict_get d k = dict_get d k'"
proof (induction d)
  case Nil
  then show ?case by simp
next
  case (Cons kv d)
  obtain k0 v0 where kv: "kv = (k0, v0)" by (cases kv)
  from Cons.prems have "key_eq k0 k = key_eq k0 k'"
    using key_eq_sym key_eq_trans by blast
  with Cons kv show ?case by simp
qed

lemma lookup2_put_language:
  assumes "put_language acc lang attr v = Inr acc'"
  shows "lookup2 acc' a l = (if key_eq attr a \<and> key_eq lang l then Some v else lookup2 acc a l)"
proof -
  let ?inner = "case dict_get acc attr of None \<Rightarrow> [] | Some inner \<Rightarrow> inner"
  from assms have acc': "acc' = dict_set acc attr (dict_set ?inner lang v)"
    by (simp add: put_language_def split: if_splits)
  show ?thesis
  proof (cases "key_eq attr a")
    case True
    then have "dict_get acc a = dict_get acc attr"
      using dict_get_key_eq [of attr a acc] by simp
    with True acc' show ?thesis
      by (auto simp: lookup2_def dict_get_dict_set split: option.splits)
  next
    case False
    with acc' show ?thesis
      by (simp add: lookup2_def dict_get_dict_set)
  qed
qed

lemma last_write_append:
  "last_write (ws @ ws') a l =
     (case last_write ws' a l of Some v \<Rightarrow> Some v | None \<Rightarrow> last_write ws a l)"
  by (induction ws) (auto split: option.splits)

lemma lookup2_fold_items:
  assumes "fold_items acc lang items = Inr acc'"
  shows "lookup2 acc' a l =
     (case last_write (map (\<lambda>(attr, v). (attr, lang, v)) items) a l of
        Some v \<Rightarrow> Some v | None \<Rightarrow> lookup2 acc a l)"
  using assms
proof (induction items arbitrary: acc)
  case Nil
  then show ?case by simp
next
  case (Cons item items)
  obtain attr v where item: "item = (attr, v)" by (cases item)
  from Cons.prems item obtain acc1 where
    put: "put_language acc lang attr v = Inr acc1" and rest: "fold_items acc1 lang items = Inr acc'"
    by (auto simp: bind_eq_Inr)
  show ?case
    using Cons.IH [OF rest] lookup2_put_language [OF put, of a l] item
    by (auto split: option.splits)
qed

lemma lookup2_fold_overlays:
  assumes "fold_overlays field acc es = Inr acc'"
  shows "lookup2 acc' a l =
     (case last_write (concat (map (entry_writes field) es)) a l of
        Some v \<Rightarrow> Some v | None \<Rightarrow> lookup2 acc a l)"
  using assms
proof (induction es arbitrary: acc)
  case Nil
  then show ?case by simp
next
  case (Cons entry es)
  from Cons.prems obtain lang attr_info items acc1 where
    lang: "py_get entry (PStr ''language'') (PStr ''unknown'') = Inr lang"
    and ai: "py_get entry (PStr field) (PDict []) = Inr attr_info"
    and items: "py_items attr_info = Inr items"
    and inner: "fold_items acc lang items = Inr acc1"
    and rest: "fold_overlays field acc1 es = Inr acc'"
    by (auto simp: bind_eq_Inr)
  from lang obtain e where e: "entry = PDict e"
    by (cases entry) (simp_all add: py_get_def)
  from items have attr_info: "attr_info = PDict items"
    by (cases attr_info) (simp_all add: py_items_def)
  have w: "last_write (entry_writes field entry) a l =
           last_write (map (\<lambda>(attr, v). (attr, lang, v)) items) a l"
  proof (cases "dict_get e (PStr field)")
    case None
    with ai e attr_info have "items = []" by simp
    with None e show ?thesis by (simp add: entry_writes_def)
  next
    case (Some x)
    with ai e attr_info have "x = PDict items" by simp
    with Some e lang show ?thesis
      by (simp add: entry_writes_def split: option.splits)
  qed
  show ?case
    using Cons.IH [OF rest, of ] lookup2_fold_items [OF inner, of a l] w
    by (auto simp: last_write_append split: option.splits)
qed

subsection \<open>Patterns and assignments on the graph\<close>

lemma py_get_overlay_value: "py_get x a PNone = Inr v \<Longrightarrow> v = overlay_value x a"
  by (cases x) (auto simp: py_get_def overlay_value_def)

lemma set_props_other: "k \<notin> fst ` set kvs \<Longrightarrow> set_props kvs m k = m k"
  unfolding set_props_def
  by (induction kvs arbitrary: m) (auto simp: set_prop_def)

lemma matches_set_props:
  assumes "fst ` set key \<inter> fst ` set kvs = {}"
  shows "matches lbl key (n\<lparr>props := set_props kvs (props n)\<rparr>) = matches lbl key n"
proof -
  have "set_props kvs (props n) k = props n k" if "(k, v) \<in> set key" for k v
    using that assms set_props_other [of k kvs "props n"] by force
  then show ?thesis
    by (auto simp: matches_def list_all_iff)
qed

lemma nodes_merge_edges [simp]: "nodes (merge_edges ty sid lbl key g) = nodes g"
  by (simp add: merge_edges_def)

lemma nodes_set_matching:
  "nodes (set_matching lbl key kvs g) =
     map (\<lambda>n. if matches lbl key n then n\<lparr>props := set_props kvs (props n)\<rparr> else n) (nodes g)"
  by (simp add: set_matching_def)

lemma merge_node_has_match:
  "\<not> null_in key \<Longrightarrow> distinct (map fst key) \<Longrightarrow> list_ex (matches lbl key) (nodes (merge_node lbl key g))"
  by (auto simp: merge_node_def matches_def null_in_def list_all_iff list_ex_iff)

lemma set_matching_keeps_match:
  assumes "fst ` set key \<inter> fst ` set kvs = {}"
    and "list_ex (matches lbl key) (nodes g)"
  shows "list_ex (matches lbl key) (nodes (set_matching lbl key kvs g))"
proof -
  from assms(2) obtain n where n: "n \<in> set (nodes g)" "matches lbl key n"
    by (auto simp: list_ex_iff)
  then have "n\<lparr>props := set_props kvs (props n)\<rparr> \<in> set (nodes (set_matching lbl key kvs g))"
    by (force simp: nodes_set_matching)
  with n(2) show ?thesis
    using matches_set_props [OF assms(1), of lbl n] by (auto simp: list_ex_iff)
qed

lemma set_matching_matched_props:
  assumes "nd \<in> set (nodes (set_matching lbl key kvs g))" and "matches lbl key nd"
  shows "\<exists>m. props nd = set_props kvs m"
proof -
  from assms(1) obtain n0 where n0: "n0 \<in> set (nodes g)"
    and nd: "nd = (if matches lbl key n0 then n0\<lparr>props := set_props kvs (props n0)\<rparr> else n0)"
    by (auto simp: nodes_set_matching)
  show ?thesis
  proof (cases "matches lbl key n0")
    case True
    with nd n0 show ?thesis by auto
  next
    case False
    with nd assms(2) show ?thesis by simp
  qed
qed

lemma set_props_six:
  "set_props [(''type'', t), (''unit'', u), (''description'', d), (''format'', f),
              (''vocabulary'', v), (''codes'', c)] m ''type'' = stored t"
  "set_props [(''type'', t), (''unit'', u), (''description'', d), (''format'', f),
              (''vocabulary'', v), (''codes'', c)] m ''unit'' = stored u"
  "set_props [(''type'', t), (''unit'', u), (''description'', d), (''format'', f),
              (''vocabulary'', v), (''codes'', c)] m ''description'' = stored d"
  "set_props [(''type'', t), (''unit'', u), (''description'', d), (''format'', f),
              (''vocabulary'', v), (''codes'', c)] m ''format'' = stored f"
  "set_props [(''type'', t), (''unit'', u), (''description'', d), (''format'', f),
              (''vocabulary'', v), (''codes'', c)] m ''vocabulary'' = stored v"
  "set_props [(''type'', t), (''unit'', u), (''description'', d), (''format'', f),
              (''vocabulary'', v), (''codes'', c)] m ''codes'' = stored c"
  by (simp_all add: set_props_def set_prop_def stored_def)

subsection \<open>The four statements in their common form\<close>

lemma set_props_append: "set_props (kvs @ kvs') m = set_props kvs' (set_props kvs m)"
  by (simp add: set_props_def)

lemma set_props_lookup:
  "set_props kvs m k = (case map_of (rev kvs) k of Some v \<Rightarrow> stored v | None \<Rightarrow> m k)"
proof (induction kvs arbitrary: m)
  case Nil
  then show ?case by (simp add: set_props_def)
next
  case (Cons kv kvs)
  have "set_props (kv # kvs) m = set_props kvs (set_prop kv m)"
    by (simp add: set_props_def)
  then show ?case
    using Cons.IH [of "set_prop kv m"]
    by (cases kv) (auto simp: set_prop_def stored_def map_add_def split: option.splits)
qed

lemma label_upd [simp]: "label (upd s n) = label n"
  by (simp add: upd_def)

lemma key_assignments_disjoint:
  "fst (pattern s) = fst (pattern s') \<Longrightarrow>
     fst ` set (snd (pattern s')) \<inter> fst ` set (assignments s) = {}"
  by (cases s; cases s') simp_all

lemma targets_upd [simp]: "targets s' (upd s n) = targets s' n"
proof (cases "targets s n \<and> label n = fst (pattern s')")
  case True
  then have "fst (pattern s) = fst (pattern s')"
    by (auto simp: targets_def matches_def)
  from matches_set_props [OF key_assignments_disjoint [OF this]] True
  show ?thesis by (simp add: upd_def targets_def)
next
  case False
  then show ?thesis by (auto simp: upd_def targets_def matches_def)
qed

lemma is_schema_targets: "is_schema sid n = targets (SetOrdering sid PNone PNone) n"
  by (simp add: is_schema_def targets_def)

lemma is_schema_upd [simp]: "is_schema sid (upd s n) = is_schema sid n"
  by (simp add: is_schema_targets)

lemma targets_same_pattern: "targets s n \<Longrightarrow> targets s' n \<Longrightarrow> pattern s = pattern s'"
  by (cases s; cases s') (auto simp: targets_def matches_def)

lemma pattern_targets: "pattern s = pattern s' \<Longrightarrow> targets s = targets s'"
  by (auto simp: targets_def fun_eq_iff)

lemma targets_fresh_node: "targets s' (fresh_node s) \<Longrightarrow> pattern s' = pattern s"
  by (cases s; cases s') (auto simp: targets_def matches_def fresh_node_def)

lemma fresh_node_targets: "\<not> null_in (snd (pattern s)) \<Longrightarrow> targets s (fresh_node s)"
  by (cases s) (auto simp: targets_def matches_def fresh_node_def null_in_def)

lemma is_schema_pattern: "is_schema sid n \<Longrightarrow> targets s n \<Longrightarrow> pattern s = (''Schema'', [(''id'', sid)])"
  using targets_same_pattern [of "SetOrdering sid PNone PNone" n s]
  by (simp add: is_schema_targets)

lemma schema_pattern_id:
  "pattern s = (''Schema'', [(''id'', sid)]) \<Longrightarrow> stmt_schema_id s = sid \<and> targets s = is_schema sid"
  by (cases s) (auto simp: targets_def is_schema_def fun_eq_iff)

text \<open>The graph after a statement that is not rejected: the new node, if one is created,
  goes to the end; every node is updated; the edges of the pattern are added.\<close>

definition grown :: "stmt \<Rightarrow> graph \<Rightarrow> node list" where
  "grown s g = (if creates s \<and> \<not> present s g then nodes g @ [fresh_node s] else nodes g)"

lemma set_match_ids: "set (match_ids lbl key g) = {i. i < length (nodes g) \<and> matches lbl key (nodes g ! i)}"
  by (auto simp: match_ids_def)

lemma edges_merge_edges:
  "edges (merge_edges ty sid lbl key g) =
     edges g \<union> (\<lambda>(i, j). (i, ty, j)) `
       {(i, j). i < length (nodes g) \<and> j < length (nodes g)
              \<and> is_schema sid (nodes g ! i) \<and> matches lbl key (nodes g ! j)}"
  by (auto simp: merge_edges_def set_match_ids is_schema_def image_iff)

lemma nodes_merge_node:
  "nodes (merge_node lbl key g) =
     (if list_ex (matches lbl key) (nodes g) then nodes g
      else nodes g @ [\<lparr> label = lbl, props = map_of key \<rparr>])"
  by (simp add: merge_node_def)

lemma edges_merge_node [simp]: "edges (merge_node lbl key g) = edges g"
  by (simp add: merge_node_def)

lemma edges_set_matching [simp]: "edges (set_matching lbl key kvs g) = edges g"
  by (simp add: set_matching_def)

lemma exec_rejected: "exec g s = None \<longleftrightarrow> rejected s"
  by (cases s) (simp_all add: rejected_def)

lemma targets_eq: "targets s = matches (fst (pattern s)) (snd (pattern s))"
  by (simp add: fun_eq_iff targets_def)

lemma upd_eq:
  "upd s = (\<lambda>n. if matches (fst (pattern s)) (snd (pattern s)) n
                 then n\<lparr>props := set_props (assignments s) (props n)\<rparr> else n)"
  by (simp add: fun_eq_iff upd_def targets_def)

lemma nodes_exec:
  assumes "exec g s = Some g'"
  shows "nodes g' = map (upd s) (grown s g)"
  using assms
  by (cases s)
     (auto simp: nodes_set_matching nodes_merge_node grown_def present_def targets_eq
        upd_eq fresh_node_def split: if_splits)

lemma edges_exec:
  assumes "exec g s = Some g'"
  shows "edges g' =
     (case edge_type s of
        None \<Rightarrow> edges g
      | Some ty \<Rightarrow> edges g \<union> (\<lambda>(i, j). (i, ty, j)) ` pairs s g')"
proof (cases s)
  case (MergeSchema sid name cbid ty)
  with assms show ?thesis by (auto split: if_splits)
next
  case (MergeAttribute name ty unit desc fmt voc codes sid)
  with assms obtain h where g': "g' = merge_edges ''HAS_ATTRIBUTE'' sid ''Attribute'' [(''name'', name)] h"
    and h: "edges h = edges g"
    by (auto split: if_splits)
  show ?thesis
    unfolding g' edges_merge_edges
    using h MergeAttribute by (simp add: pairs_def targets_def)
next
  case (MergeMeta name desc lang sid)
  with assms obtain h where g': "g' = merge_edges ''HAS_META'' sid ''Meta''
        [(''name'', name), (''schema_id'', sid), (''language'', lang)] h"
    and h: "edges h = edges g"
    by (auto split: if_splits)
  show ?thesis
    unfolding g' edges_merge_edges
    using h MergeMeta by (simp add: pairs_def targets_def)
next
  case (SetOrdering sid ao eco)
  with assms show ?thesis by auto
qed

subsection \<open>What one statement keeps\<close>

lemma grown_old: "i < length (nodes g) \<Longrightarrow> grown s g ! i = nodes g ! i"
  by (simp add: grown_def nth_append)

lemma grown_new:
  assumes "length (nodes g) \<le> i" and "i < length (grown s g)"
  shows "grown s g ! i = fresh_node s \<and> \<not> present s g"
  using assms by (auto simp: grown_def nth_append split: if_splits)

lemma length_exec: "exec g s = Some g' \<Longrightarrow> length (nodes g) \<le> length (nodes g')"
  by (auto simp: nodes_exec grown_def)

lemma nth_exec:
  "exec g s = Some g' \<Longrightarrow> i < length (nodes g) \<Longrightarrow> nodes g' ! i = upd s (nodes g ! i)"
  using length_exec [of g s g'] by (simp add: nodes_exec grown_old)

lemma new_exec:
  assumes "exec g s = Some g'" and "length (nodes g) \<le> i" and "i < length (nodes g')"
  shows "nodes g' ! i = upd s (fresh_node s) \<and> \<not> present s g"
proof -
  from assms(1,3) have "i < length (grown s g)"
    by (simp add: nodes_exec)
  with grown_new [OF assms(2) this] assms(1) show ?thesis
    by (simp add: nodes_exec)
qed

lemma edges_exec_mono: "exec g s = Some g' \<Longrightarrow> edges g \<subseteq> edges g'"
  by (auto simp: edges_exec split: option.splits)

lemma present_iff: "present s g \<longleftrightarrow> (\<exists>i < length (nodes g). targets s (nodes g ! i))"
  by (auto simp: present_def list_ex_iff in_set_conv_nth intro: nth_mem)

lemma has_schema_present: "has_schema sid g = present (SetOrdering sid PNone PNone) g"
  by (simp add: has_schema_def present_def is_schema_targets [abs_def])

lemma present_exec:
  assumes "exec g s = Some g'" and "present s0 g"
  shows "present s0 g'"
proof -
  from assms(2) obtain i where i: "i < length (nodes g)" "targets s0 (nodes g ! i)"
    by (auto simp: present_iff)
  with nth_exec [OF assms(1) i(1)] length_exec [OF assms(1)] show ?thesis
    by (auto simp: present_iff intro!: exI [of _ i])
qed

lemma has_schema_exec: "exec g s = Some g' \<Longrightarrow> has_schema sid g \<Longrightarrow> has_schema sid g'"
  by (simp add: has_schema_present present_exec)

lemma new_not_target:
  assumes "exec g s = Some g'" and "present s0 g"
    and "length (nodes g) \<le> i" and "i < length (nodes g')"
  shows "\<not> targets s0 (nodes g' ! i)"
proof
  assume t: "targets s0 (nodes g' ! i)"
  from new_exec [OF assms(1,3,4)] have n: "nodes g' ! i = upd s (fresh_node s)"
    and np: "\<not> present s g" by simp_all
  from t n have "targets s0 (fresh_node s)" by simp
  then have "targets s0 = targets s"
    by (intro pattern_targets targets_fresh_node)
  with assms(2) np show False by (simp add: present_def)
qed

lemma targets_exec_old:
  assumes "exec g s = Some g'"
  shows "i < length (nodes g') \<and> targets s0 (nodes g' ! i) \<and> present s0 g
         \<longleftrightarrow> i < length (nodes g) \<and> targets s0 (nodes g ! i)"
proof
  assume l: "i < length (nodes g') \<and> targets s0 (nodes g' ! i) \<and> present s0 g"
  with new_not_target [OF assms, of s0 i] have i: "i < length (nodes g)"
    by (cases "i < length (nodes g)") auto
  with l nth_exec [OF assms i] show "i < length (nodes g) \<and> targets s0 (nodes g ! i)"
    by simp
next
  assume r: "i < length (nodes g) \<and> targets s0 (nodes g ! i)"
  then have "present s0 g" by (auto simp: present_iff)
  with r nth_exec [OF assms, of i] length_exec [OF assms]
  show "i < length (nodes g') \<and> targets s0 (nodes g' ! i) \<and> present s0 g"
    by simp
qed

lemma pairs_exec:
  assumes "exec g s = Some g'" and "present s0 g" and "has_schema (stmt_schema_id s0) g"
  shows "pairs s0 g' = pairs s0 g"
proof -
  let ?o = "SetOrdering (stmt_schema_id s0) PNone PNone"
  have a: "i < length (nodes g') \<and> targets s0 (nodes g' ! i)
           \<longleftrightarrow> i < length (nodes g) \<and> targets s0 (nodes g ! i)" for i
    using targets_exec_old [OF assms(1), of i s0] assms(2) by simp
  have b: "i < length (nodes g') \<and> is_schema (stmt_schema_id s0) (nodes g' ! i)
           \<longleftrightarrow> i < length (nodes g) \<and> is_schema (stmt_schema_id s0) (nodes g ! i)" for i
    using targets_exec_old [OF assms(1), of i ?o] assms(3)
    by (simp add: has_schema_present is_schema_targets)
  show ?thesis
    unfolding pairs_def using a b by blast
qed

lemma edge_type_creates: "edge_type s = Some ty \<Longrightarrow> creates s"
  by (cases s) simp_all

lemma not_creates_schema: "\<not> creates s \<Longrightarrow> targets s = is_schema (stmt_schema_id s)"
  by (cases s) (simp_all add: targets_def is_schema_def fun_eq_iff)

lemma merge_schema_targets: "is_merge_schema s \<Longrightarrow> targets s = is_schema (stmt_schema_id s)"
  by (cases s) (simp_all add: targets_def is_schema_def fun_eq_iff)

lemma settled_present: "settled s g \<Longrightarrow> present s g"
  using not_creates_schema [of s]
  by (auto simp: settled_def present_def has_schema_def split: if_splits)

lemma settled_exec:
  assumes "exec g s = Some g'" and "settled s0 g"
  shows "settled s0 g'"
proof -
  from assms(2) have p: "present s0 g" and h: "has_schema (stmt_schema_id s0) g"
    and l: "linked s0 g"
    by (simp_all add: settled_present) (simp_all add: settled_def)
  have "linked s0 g'"
    using l pairs_exec [OF assms(1) p h] edges_exec_mono [OF assms(1)]
    by (auto simp: linked_def split: option.splits)
  with present_exec [OF assms(1) p] has_schema_exec [OF assms(1) h] show ?thesis
    by (simp add: settled_def)
qed

lemma present_self:
  assumes "exec g s = Some g'" and "creates s"
  shows "present s g'"
proof (cases "present s g")
  case True
  with assms(1) show ?thesis by (rule present_exec)
next
  case False
  from assms(1) have "\<not> rejected s"
    using exec_rejected [of g s] by simp
  with assms(2) have "targets s (fresh_node s)"
    by (simp add: rejected_def fresh_node_targets)
  moreover from False assms have "upd s (fresh_node s) \<in> set (nodes g')"
    by (simp add: nodes_exec grown_def)
  ultimately show ?thesis
    by (auto simp: present_def list_ex_iff intro!: bexI [of _ "upd s (fresh_node s)"])
qed

lemma settled_self:
  assumes "exec g s = Some g'" and "has_schema (stmt_schema_id s) g \<or> is_merge_schema s"
  shows "settled s g'"
proof -
  have p: "creates s \<Longrightarrow> present s g'"
    using assms(1) by (rule present_self)
  have h: "has_schema (stmt_schema_id s) g'"
  proof (cases "has_schema (stmt_schema_id s) g")
    case True
    with assms(1) show ?thesis by (rule has_schema_exec)
  next
    case False
    with assms(2) have m: "is_merge_schema s" by simp
    then have "creates s" by (cases s) simp_all
    from p [OF this] merge_schema_targets [OF m] show ?thesis
      by (simp add: present_def has_schema_def)
  qed
  have "linked s g'"
    using edges_exec [OF assms(1)] by (auto simp: linked_def split: option.splits)
  with p h show ?thesis by (simp add: settled_def)
qed

text \<open>On a graph where the statement is settled, it only updates the nodes.\<close>

lemma exec_settled:
  assumes "settled s g" and "\<not> rejected s"
  shows "exec g s = Some (g\<lparr>nodes := map (upd s) (nodes g)\<rparr>)"
proof -
  from assms(2) obtain g' where g': "exec g s = Some g'"
    using exec_rejected [of g s] by (cases "exec g s") auto
  from assms(1) have p: "present s g" and h: "has_schema (stmt_schema_id s) g"
    and l: "linked s g"
    by (simp_all add: settled_present) (simp_all add: settled_def)
  have n: "nodes g' = map (upd s) (nodes g)"
    using p by (simp add: nodes_exec [OF g'] grown_def)
  have e: "edges g' = edges g"
    using edges_exec [OF g'] l pairs_exec [OF g' p h]
    by (auto simp: linked_def split: option.splits)
  have "g' = g\<lparr>nodes := map (upd s) (nodes g)\<rparr>"
    using n e by (cases g, cases g') simp
  with g' show ?thesis by simp
qed

subsection \<open>Running the statements again\<close>

lemma acts_upd [simp]: "acts ss (upd s n) = acts ss n"
  by (simp add: acts_def)

lemma fold_upd: "fold upd ss n = n\<lparr>props := set_props (acts ss n) (props n)\<rparr>"
proof (induction ss arbitrary: n)
  case Nil
  then show ?case by (simp add: acts_def set_props_def)
next
  case (Cons s ss)
  have "fold upd (s # ss) n = fold upd ss (upd s n)" by simp
  also have "\<dots> = (upd s n)\<lparr>props := set_props (acts ss n) (props (upd s n))\<rparr>"
    using Cons.IH [of "upd s n"] by simp
  also have "\<dots> = n\<lparr>props := set_props (acts (s # ss) n) (props n)\<rparr>"
    by (simp add: upd_def acts_def set_props_append)
  finally show ?case .
qed

lemma targets_fold_upd [simp]: "targets s (fold upd ss n) = targets s n"
  by (induction ss arbitrary: n) simp_all

lemma fold_upd_untargeted: "list_all (\<lambda>s. \<not> targets s n) ss \<Longrightarrow> fold upd ss n = n"
  by (induction ss arbitrary: n) (simp_all add: upd_def)

lemma set_props_again:
  assumes "set_props K m = m"
  shows "set_props ks (set_props K (set_props ks m)) = set_props ks m"
proof
  fix k
  from assms have "set_props K m k = m k" by simp
  then show "set_props ks (set_props K (set_props ks m)) k = set_props ks m k"
    by (simp add: set_props_lookup split: option.splits)
qed

lemma upd_after_fixed:
  assumes "fold upd prev n = n"
  shows "upd s (fold upd prev (upd s n)) = upd s n"
proof (cases "targets s n")
  case False
  with assms show ?thesis by (simp add: upd_def)
next
  case True
  from assms have "n\<lparr>props := set_props (acts prev n) (props n)\<rparr> = n"
    by (simp add: fold_upd)
  then have "props (n\<lparr>props := set_props (acts prev n) (props n)\<rparr>) = props n"
    by simp
  then have m: "set_props (acts prev n) (props n) = props n"
    by simp
  let ?ks = "assignments s"
  have u: "upd s n = n\<lparr>props := set_props ?ks (props n)\<rparr>"
    using True by (simp add: upd_def)
  have "fold upd prev (upd s n) =
      (upd s n)\<lparr>props := set_props (acts prev (upd s n)) (props (upd s n))\<rparr>"
    by (rule fold_upd)
  also have "\<dots> = n\<lparr>props := set_props (acts prev n) (set_props ?ks (props n))\<rparr>"
    unfolding acts_upd by (simp add: u)
  finally have f: "fold upd prev (upd s n) =
      n\<lparr>props := set_props (acts prev n) (set_props ?ks (props n))\<rparr>" .
  have "targets s (fold upd prev (upd s n))"
    using True by simp
  then have "upd s (fold upd prev (upd s n)) =
      (fold upd prev (upd s n))\<lparr>props := set_props ?ks (props (fold upd prev (upd s n)))\<rparr>"
    by (simp add: upd_def)
  also have "\<dots> = n\<lparr>props := set_props ?ks (set_props (acts prev n) (set_props ?ks (props n)))\<rparr>"
    by (simp add: f)
  also have "\<dots> = upd s n"
    by (simp add: set_props_again [OF m] u)
  finally show ?thesis .
qed

lemma fixed_exec:
  assumes "exec g s = Some g'" and "fixed prev g" and "list_all (\<lambda>s0. settled s0 g) prev"
  shows "fixed (prev @ [s]) g'"
proof -
  have "fold upd (prev @ [s]) (upd s n) = upd s n" if "n \<in> set (grown s g)" for n
  proof (cases "n \<in> set (nodes g)")
    case True
    with assms(2) have "fold upd prev n = n"
      by (simp add: fixed_def list_all_iff)
    then show ?thesis by (simp add: upd_after_fixed)
  next
    case False
    with that have n: "n = fresh_node s" and np: "\<not> present s g"
      by (auto simp: grown_def split: if_splits)
    have "\<not> targets s0 (upd s n)" if "s0 \<in> set prev" for s0
    proof
      assume "targets s0 (upd s n)"
      with n have "targets s0 = targets s"
        by (intro pattern_targets targets_fresh_node) simp
      moreover from that assms(3) have "present s0 g"
        by (simp add: list_all_iff settled_present)
      ultimately show False using np by (simp add: present_def)
    qed
    then have "fold upd prev (upd s n) = upd s n"
      by (intro fold_upd_untargeted) (simp add: list_all_iff)
    moreover have "upd s (upd s n) = upd s n"
      using upd_after_fixed [of "[]" n s] by simp
    ultimately show ?thesis by simp
  qed
  then show ?thesis
    by (simp add: fixed_def list_all_iff nodes_exec [OF assms(1)])
qed

lemma run_accepted_prefix: "run g ss = run g (takeWhile (\<lambda>s. \<not> rejected s) ss)"
proof (induction ss arbitrary: g)
  case Nil
  then show ?case by simp
next
  case (Cons s ss)
  show ?case
  proof (cases "exec g s")
    case None
    then have "rejected s" by (simp add: exec_rejected)
    with None show ?thesis by simp
  next
    case (Some g')
    then have "\<not> rejected s" using exec_rejected [of g s] by simp
    with Some Cons.IH [of g'] show ?thesis by simp
  qed
qed

lemma shaped_prefix: "shaped sid ss \<Longrightarrow> shaped sid (takeWhile P ss)"
  by (cases ss) (auto simp: shaped_def list_all_iff dest: set_takeWhileD)

lemma run_invariant:
  assumes "list_all (\<lambda>s. \<not> rejected s) ss"
    and "fixed prev g" and "list_all (\<lambda>s0. settled s0 g) prev"
    and "list_all (\<lambda>s. stmt_schema_id s = sid) ss"
    and "has_schema sid g \<or> shaped sid ss"
  shows "fixed (prev @ ss) (run g ss) \<and> list_all (\<lambda>s0. settled s0 (run g ss)) (prev @ ss)"
  using assms
proof (induction ss arbitrary: prev g)
  case Nil
  then show ?case by simp
next
  case (Cons s ss)
  from Cons.prems(1) obtain g' where g': "exec g s = Some g'"
    using exec_rejected [of g s] by (cases "exec g s") auto
  from Cons.prems(4,5) have "has_schema (stmt_schema_id s) g \<or> is_merge_schema s"
    by (auto simp: shaped_def)
  from settled_self [OF g' this] have s: "settled s g'" .
  with Cons.prems(4) have h: "has_schema sid g'"
    by (simp add: settled_def)
  have "fixed ((prev @ [s]) @ ss) (run g' ss)
      \<and> list_all (\<lambda>s0. settled s0 (run g' ss)) ((prev @ [s]) @ ss)"
  proof (rule Cons.IH)
    show "list_all (\<lambda>s. \<not> rejected s) ss" using Cons.prems(1) by simp
    show "fixed (prev @ [s]) g'" using g' Cons.prems(2,3) by (rule fixed_exec)
    show "list_all (\<lambda>s0. settled s0 g') (prev @ [s])"
      using Cons.prems(3) s settled_exec [OF g'] by (simp add: list_all_iff)
    show "list_all (\<lambda>s. stmt_schema_id s = sid) ss" using Cons.prems(4) by simp
    show "has_schema sid g' \<or> shaped sid ss" using h by simp
  qed
  with g' show ?case by simp
qed

lemma run_settled:
  assumes "list_all (\<lambda>s. \<not> rejected s \<and> settled s g) ss"
  shows "run g ss = g\<lparr>nodes := map (fold upd ss) (nodes g)\<rparr>"
  using assms
proof (induction ss arbitrary: g)
  case Nil
  then show ?case by simp
next
  case (Cons s ss)
  let ?g' = "g\<lparr>nodes := map (upd s) (nodes g)\<rparr>"
  from Cons.prems have e: "exec g s = Some ?g'"
    by (simp add: exec_settled)
  have "list_all (\<lambda>s. \<not> rejected s \<and> settled s ?g') ss"
    using Cons.prems settled_exec [OF e] by (simp add: list_all_iff)
  from Cons.IH [OF this] e show ?case
    by (simp add: comp_def)
qed

lemma run_shaped_twice:
  assumes "shaped sid ss"
  shows "run (run g ss) ss = run g ss"
proof -
  let ?ss = "takeWhile (\<lambda>s. \<not> rejected s) ss"
  let ?g = "run g ?ss"
  have a: "list_all (\<lambda>s. \<not> rejected s) ?ss"
    by (auto simp: list_all_iff dest: set_takeWhileD)
  have sh: "shaped sid ?ss" using assms by (rule shaped_prefix)
  have sid: "list_all (\<lambda>s. stmt_schema_id s = sid) ?ss"
    using sh by (simp add: shaped_def)
  have f0: "fixed [] g" by (simp add: fixed_def list_all_iff)
  have s0: "list_all (\<lambda>s0. settled s0 g) []" by simp
  have "fixed ([] @ ?ss) ?g \<and> list_all (\<lambda>s0. settled s0 ?g) ([] @ ?ss)"
    using a f0 s0 sid disjI2 [OF sh] by (rule run_invariant)
  then have f: "fixed ?ss ?g" and s: "list_all (\<lambda>s0. settled s0 ?g) ?ss"
    by simp_all
  from a s have "run ?g ?ss = ?g\<lparr>nodes := map (fold upd ?ss) (nodes ?g)\<rparr>"
    by (intro run_settled) (simp add: list_all_iff)
  also have "map (fold upd ?ss) (nodes ?g) = nodes ?g"
    using f by (simp add: fixed_def list_all_iff map_idI)
  finally have "run ?g ?ss = ?g" by simp
  then show ?thesis
    using run_accepted_prefix [of g ss] run_accepted_prefix [of ?g ss] by simp
qed

subsection \<open>How many nodes match a pattern\<close>

lemma length_match_ids: "length (match_ids lbl key g) = length (filter (matches lbl key) (nodes g))"
proof -
  have "filter (matches lbl key) (map ((!) (nodes g)) [0..<length (nodes g)]) =
      map ((!) (nodes g)) (filter (\<lambda>i. matches lbl key (nodes g ! i)) [0..<length (nodes g)])"
    by (simp add: filter_map comp_def)
  then have "length (filter (matches lbl key) (nodes g)) =
      length (filter (\<lambda>i. matches lbl key (nodes g ! i)) [0..<length (nodes g)])"
    by (simp add: map_nth)
  then show ?thesis by (simp add: match_ids_def)
qed

lemma length_match_ids_cnt: "length (match_ids (fst (pattern s)) (snd (pattern s)) g) = cnt s g"
  by (simp add: length_match_ids cnt_def targets_eq)

lemma present_cnt: "present s g \<longleftrightarrow> 0 < cnt s g"
  by (auto simp: present_def cnt_def list_ex_iff filter_empty_conv length_greater_0_conv)

lemma targets_comp_upd [simp]: "targets s0 \<circ> upd s = targets s0"
  by (simp add: fun_eq_iff)

lemma cnt_exec_present:
  assumes "exec g s = Some g'" and "present s0 g"
  shows "cnt s0 g' = cnt s0 g"
proof (cases "creates s \<and> \<not> present s g")
  case False
  with assms(1) show ?thesis
    by (simp add: cnt_def nodes_exec grown_def)
next
  case True
  have "\<not> targets s0 (fresh_node s)"
  proof
    assume "targets s0 (fresh_node s)"
    then have "targets s0 = targets s"
      by (intro pattern_targets targets_fresh_node)
    with assms(2) True show False by (simp add: present_def)
  qed
  with True assms(1) show ?thesis
    by (simp add: cnt_def nodes_exec grown_def)
qed

lemma cnt_exec_le1:
  assumes "exec g s = Some g'" and "cnt s0 g \<le> 1"
  shows "cnt s0 g' \<le> 1"
proof (cases "present s0 g")
  case True
  with assms show ?thesis by (simp add: cnt_exec_present)
next
  case False
  then have "cnt s0 g = 0" by (simp add: present_cnt)
  then have "filter (targets s0) (nodes g) = []" by (simp add: cnt_def)
  with assms(1) show ?thesis
    by (simp add: cnt_def nodes_exec grown_def)
qed

lemma cnt_run_le1: "cnt s0 g \<le> 1 \<Longrightarrow> cnt s0 (run g ss) \<le> 1"
proof (induction ss arbitrary: g)
  case Nil
  then show ?case by simp
next
  case (Cons s ss)
  then show ?case
    by (cases "exec g s") (auto dest: cnt_exec_le1)
qed

lemma settled_run: "settled s0 g \<Longrightarrow> settled s0 (run g ss)"
proof (induction ss arbitrary: g)
  case Nil
  then show ?case by simp
next
  case (Cons s ss)
  then show ?case
    by (cases "exec g s") (auto dest: settled_exec)
qed

lemma cnt_empty_graph [simp]: "cnt s empty_graph = 0"
  by (simp add: cnt_def empty_graph_def)

text \<open>After the statements of an import, run from any graph without a rejection, every
  one of them is settled.\<close>

lemma run_shaped_settled:
  assumes "shaped sid ss" and "list_all (\<lambda>s. \<not> rejected s) ss" and "s \<in> set ss"
  shows "settled s (run g ss)"
proof -
  have sid: "list_all (\<lambda>s. stmt_schema_id s = sid) ss"
    using assms(1) by (simp add: shaped_def)
  have f0: "fixed [] g" by (simp add: fixed_def list_all_iff)
  have s0: "list_all (\<lambda>s0. settled s0 g) []" by simp
  have "fixed ([] @ ss) (run g ss) \<and> list_all (\<lambda>s0. settled s0 (run g ss)) ([] @ ss)"
    using assms(2) f0 s0 sid disjI2 [OF assms(1)] by (rule run_invariant)
  with assms(3) show ?thesis by (simp add: list_all_iff)
qed

subsection \<open>The statements of an import that returns\<close>

lemma andthen_None:
  assumes "snd (andthen a b) = None"
  shows "snd a = None \<and> snd b = None \<and> fst (andthen a b) = fst a @ fst b"
  using assms by (cases "snd a") (simp_all add: andthen_def)

lemma emit_attributes_None:
  assumes "snd (emit_attributes dumps n (item # rest)) = None"
  shows "\<exists>s. attribute_stmt dumps n item = Inr s
           \<and> snd (emit_attributes dumps n rest) = None
           \<and> fst (emit_attributes dumps n (item # rest)) = s # fst (emit_attributes dumps n rest)"
proof (cases "attribute_stmt dumps n item")
  case (Inl e)
  with assms show ?thesis by simp
next
  case (Inr s)
  with assms andthen_None [of "([s], None)" "emit_attributes dumps n rest"] show ?thesis
    by simp
qed

lemma emit_metas_None:
  assumes "snd (emit_metas n (meta # rest)) = None"
  shows "\<exists>ss. meta_stmt n meta = Inr ss
           \<and> snd (emit_metas n rest) = None
           \<and> fst (emit_metas n (meta # rest)) = ss @ fst (emit_metas n rest)"
proof (cases "meta_stmt n meta")
  case (Inl e)
  with assms show ?thesis by simp
next
  case (Inr ss)
  with assms andthen_None [of "(ss, None)" "emit_metas n rest"] show ?thesis
    by simp
qed

lemma emit_metas_member:
  assumes "snd (emit_metas n metas) = None" and "meta \<in> set metas" and "meta_stmt n meta = Inr ss"
  shows "set ss \<subseteq> set (fst (emit_metas n metas))"
  using assms
proof (induction metas)
  case Nil
  then show ?case by simp
next
  case (Cons m metas)
  from emit_metas_None [OF Cons.prems(1)] obtain ss' where
    m: "meta_stmt n m = Inr ss'" and r: "snd (emit_metas n metas) = None"
    and f: "fst (emit_metas n (m # metas)) = ss' @ fst (emit_metas n metas)"
    by blast
  show ?case
  proof (cases "meta = m")
    case True
    with m Cons.prems(3) f show ?thesis by auto
  next
    case False
    with Cons.prems(2) have "meta \<in> set metas" by simp
    from Cons.IH [OF r this Cons.prems(3)] f show ?thesis by auto
  qed
qed

text \<open>The statements for the attributes before and after one of them.\<close>

lemma emit_attributes_split:
  assumes "snd (emit_attributes dumps n (xs @ item # ys)) = None"
  shows "\<exists>s. attribute_stmt dumps n item = Inr s
           \<and> snd (emit_attributes dumps n xs) = None
           \<and> snd (emit_attributes dumps n ys) = None
           \<and> fst (emit_attributes dumps n (xs @ item # ys)) =
               fst (emit_attributes dumps n xs) @ s # fst (emit_attributes dumps n ys)"
  using assms
proof (induction xs)
  case Nil
  with emit_attributes_None [of dumps n item ys] show ?case by simp
next
  case (Cons x xs)
  from Cons.prems have p: "snd (emit_attributes dumps n (x # (xs @ item # ys))) = None"
    by simp
  from emit_attributes_None [OF p] obtain sx where
    x: "attribute_stmt dumps n x = Inr sx"
    and r: "snd (emit_attributes dumps n (xs @ item # ys)) = None"
    and f: "fst (emit_attributes dumps n (x # (xs @ item # ys))) =
              sx # fst (emit_attributes dumps n (xs @ item # ys))"
    by blast
  from Cons.IH [OF r] obtain s where
    s: "attribute_stmt dumps n item = Inr s"
    and rx: "snd (emit_attributes dumps n xs) = None"
    and ry: "snd (emit_attributes dumps n ys) = None"
    and fs: "fst (emit_attributes dumps n (xs @ item # ys)) =
               fst (emit_attributes dumps n xs) @ s # fst (emit_attributes dumps n ys)"
    by blast
  have "snd (emit_attributes dumps n (x # xs)) = None
      \<and> fst (emit_attributes dumps n (x # xs)) = sx # fst (emit_attributes dumps n xs)"
    using x rx by (simp add: andthen_def)
  with s ry f fs show ?case by simp
qed

lemma emit_attributes_pattern:
  assumes "s \<in> set (fst (emit_attributes dumps n items))"
  shows "\<exists>k \<in> fst ` set items. pattern s = (''Attribute'', [(''name'', k)])"
  using assms
proof (induction items)
  case Nil
  then show ?case by simp
next
  case (Cons item items)
  show ?case
  proof (cases "attribute_stmt dumps n item")
    case (Inl e)
    with Cons.prems show ?thesis by simp
  next
    case (Inr s')
    then have "pattern s' = (''Attribute'', [(''name'', fst item)])"
      by (cases item) (auto simp: attribute_stmt_def bind_eq_Inr Let_def)
    moreover from Inr Cons.prems
    have "s = s' \<or> s \<in> set (fst (emit_attributes dumps n items))"
      using fst_andthen [of "([s'], None)" "emit_attributes dumps n items"] by auto
    ultimately show ?thesis using Cons.IH by auto
  qed
qed

lemma emit_metas_pattern:
  assumes "s \<in> set (fst (emit_metas n metas))"
  shows "fst (pattern s) = ''Meta''"
  using assms
proof (induction metas)
  case Nil
  then show ?case by simp
next
  case (Cons meta metas)
  show ?case
  proof (cases "meta_stmt n meta")
    case (Inl e)
    with Cons.prems show ?thesis by simp
  next
    case (Inr ss)
    then have "x \<in> set ss \<Longrightarrow> fst (pattern x) = ''Meta''" for x
      by (auto simp: meta_stmt_def bind_eq_Inr split: if_splits)
    moreover from Inr Cons.prems
    have "s \<in> set ss \<or> s \<in> set (fst (emit_metas n metas))"
      using fst_andthen [of "(ss, None)" "emit_metas n metas"] by auto
    ultimately show ?thesis using Cons.IH by auto
  qed
qed

lemma emit_ordering_pattern:
  "s \<in> set (fst (emit_ordering dumps n)) \<Longrightarrow> fst (pattern s) = ''Schema''"
  by (auto simp: emit_ordering_def split: option.splits)

lemma emit_None:
  assumes "snd (emit dumps n) = None"
  shows "\<exists>items metas.
           py_items (attributes n) = Inr items \<and> py_iter (meta_overlays n) = Inr metas
         \<and> snd (emit_attributes dumps n items) = None \<and> snd (emit_metas n metas) = None
         \<and> fst (emit dumps n) =
             MergeSchema (schema_id n) (PStr (schema_name n)) (capture_base_id n) (schema_type n)
             # fst (emit_attributes dumps n items) @ fst (emit_metas n metas)
             @ fst (emit_ordering dumps n)"
proof -
  let ?s = "([MergeSchema (schema_id n) (PStr (schema_name n)) (capture_base_id n) (schema_type n)],
             None :: pyerror option)"
  let ?a = "case py_items (attributes n) of Inl e \<Rightarrow> ([], Some e)
            | Inr items \<Rightarrow> emit_attributes dumps n items"
  let ?m = "case py_iter (meta_overlays n) of Inl e \<Rightarrow> ([], Some e)
            | Inr metas \<Rightarrow> emit_metas n metas"
  let ?o = "emit_ordering dumps n"
  from assms have 1: "snd (andthen ?s (andthen ?a (andthen ?m ?o))) = None"
    by (simp add: emit_def)
  from andthen_None [OF 1] have 2: "snd (andthen ?a (andthen ?m ?o)) = None"
    and f1: "fst (emit dumps n) = fst ?s @ fst (andthen ?a (andthen ?m ?o))"
    by (simp_all add: emit_def)
  from andthen_None [OF 2] have a: "snd ?a = None" and 3: "snd (andthen ?m ?o) = None"
    and f2: "fst (andthen ?a (andthen ?m ?o)) = fst ?a @ fst (andthen ?m ?o)"
    by simp_all
  from andthen_None [OF 3] have m: "snd ?m = None"
    and f3: "fst (andthen ?m ?o) = fst ?m @ fst ?o"
    by simp_all
  from a obtain items where items: "py_items (attributes n) = Inr items"
    by (cases "py_items (attributes n)") auto
  from m obtain metas where metas: "py_iter (meta_overlays n) = Inr metas"
    by (cases "py_iter (meta_overlays n)") auto
  show ?thesis
    using items metas a m f1 f2 f3 by simp
qed

lemma fst_emit_Cons:
  "\<exists>rest. fst (emit dumps n) =
     MergeSchema (schema_id n) (PStr (schema_name n)) (capture_base_id n) (schema_type n) # rest"
  by (simp add: emit_def andthen_def)

lemma emit_shaped: "shaped (schema_id n) (fst (emit dumps n))"
proof -
  from fst_emit_Cons [of dumps n] obtain rest where
    "fst (emit dumps n) =
       MergeSchema (schema_id n) (PStr (schema_name n)) (capture_base_id n) (schema_type n) # rest"
    by blast
  moreover have "list_all (\<lambda>s. stmt_schema_id s = schema_id n) (fst (emit dumps n))"
    using emit_schema_id [of _ dumps n] by (simp add: list_all_iff)
  ultimately show ?thesis by (simp add: shaped_def)
qed

lemma import_shaped: "\<exists>sid. shaped sid (fst (import_oca_package dumps fresh name data))"
proof (cases "normalize fresh name data")
  case (Inl e)
  then show ?thesis by (simp add: import_oca_package_def shaped_def)
next
  case (Inr n)
  then show ?thesis using emit_shaped [of n dumps] by (auto simp: import_oca_package_def)
qed

lemma normalize_fresh_unused:
  assumes "py_get data (PStr ''d'') PNone = Inr d" and "truthy d"
  shows "normalize fresh' name data = normalize fresh name data"
  using assms by (simp add: normalize_def schema_id_of_def)

subsection \<open>The steps of the normalisation\<close>

lemma normalize_steps:
  assumes "normalize fresh name data = Inr n"
  shows "\<exists>ov. overlays_of data = Inr ov
       \<and> overlay_field ov ''unit'' ''attribute_unit'' = Inr (units n)
       \<and> language_overlay ov ''information'' ''attribute_information''
           = Inr (attribute_descriptions n)
       \<and> language_overlay ov ''entry'' ''attribute_entries'' = Inr (controlled_vocabularies n)
       \<and> overlay_field ov ''entry_code'' ''attribute_entry_codes'' = Inr (entry_codes n)
       \<and> overlay_field ov ''format'' ''attribute_formats'' = Inr (attribute_formats n)
       \<and> py_get ov (PStr ''meta'') (PList []) = Inr (meta_overlays n)"
  using assms unfolding normalize_def overlays_of_def
  by (auto simp: bind_eq_Inr)

lemma import_normalize_Inl:
  "normalize fresh name data = Inl e \<Longrightarrow>
     import_oca_package dumps fresh name data = ([], Some e)"
  by (simp add: import_oca_package_def)

lemma import_normalize_Inr:
  "normalize fresh name data = Inr n \<Longrightarrow> import_oca_package dumps fresh name data = emit dumps n"
  by (simp add: import_oca_package_def)

text \<open>A step of the normalisation that raises ends the import before any statement.\<close>

lemma step_raises:
  assumes "overlays_of data = Inr ov"
    and "overlay_field ov ''unit'' ''attribute_unit'' = Inl e
       \<or> language_overlay ov ''information'' ''attribute_information'' = Inl e
       \<or> language_overlay ov ''entry'' ''attribute_entries'' = Inl e
       \<or> overlay_field ov ''entry_code'' ''attribute_entry_codes'' = Inl e
       \<or> overlay_field ov ''format'' ''attribute_formats'' = Inl e"
  shows "\<exists>e'. import_oca_package dumps fresh name data = ([], Some e')"
proof (cases "normalize fresh name data")
  case (Inl e')
  then show ?thesis by (auto dest: import_normalize_Inl)
next
  case (Inr n)
  from normalize_steps [OF Inr] assms show ?thesis by auto
qed

lemma emit_members:
  assumes "s \<in> set (fst (emit dumps n))"
  shows "s = MergeSchema (schema_id n) (PStr (schema_name n)) (capture_base_id n) (schema_type n)
       \<or> (\<exists>items. py_items (attributes n) = Inr items
                 \<and> s \<in> set (fst (emit_attributes dumps n items)))
       \<or> (\<exists>metas. py_iter (meta_overlays n) = Inr metas \<and> s \<in> set (fst (emit_metas n metas)))
       \<or> s \<in> set (fst (emit_ordering dumps n))"
proof -
  let ?a = "case py_items (attributes n) of Inl e \<Rightarrow> ([], Some e)
            | Inr items \<Rightarrow> emit_attributes dumps n items"
  let ?m = "case py_iter (meta_overlays n) of Inl e \<Rightarrow> ([], Some e)
            | Inr metas \<Rightarrow> emit_metas n metas"
  have a: "x \<in> set (fst ?a) \<Longrightarrow> \<exists>items. py_items (attributes n) = Inr items
                 \<and> x \<in> set (fst (emit_attributes dumps n items))" for x
    by (cases "py_items (attributes n)") auto
  have m: "x \<in> set (fst ?m) \<Longrightarrow> \<exists>metas. py_iter (meta_overlays n) = Inr metas
                 \<and> x \<in> set (fst (emit_metas n metas))" for x
    by (cases "py_iter (meta_overlays n)") auto
  from assms have "s \<in> {MergeSchema (schema_id n) (PStr (schema_name n)) (capture_base_id n) (schema_type n)}
      \<union> set (fst ?a) \<union> set (fst ?m) \<union> set (fst (emit_ordering dumps n))"
    unfolding emit_def
    using fst_andthen [of "([MergeSchema (schema_id n) (PStr (schema_name n)) (capture_base_id n) (schema_type n)], None)"
                 "andthen ?a (andthen ?m (emit_ordering dumps n))"]
          fst_andthen [of ?a "andthen ?m (emit_ordering dumps n)"]
          fst_andthen [of ?m "emit_ordering dumps n"]
    by auto
  then show ?thesis
    using a m by blast
qed

lemma is_merge_meta_pattern: "is_merge_meta s \<longleftrightarrow> fst (pattern s) = ''Meta''"
  by (cases s) simp_all

lemma emit_no_meta:
  assumes "py_iter (meta_overlays n) = Inr []" and "s \<in> set (fst (emit dumps n))"
  shows "\<not> is_merge_meta s"
  using emit_members [OF assms(2)] assms(1)
  by (auto simp: is_merge_meta_pattern dest: emit_attributes_pattern emit_ordering_pattern)

lemma emit_raises_at_metas:
  assumes "py_iter (meta_overlays n) = Inl e"
  shows "snd (emit dumps n) \<noteq> None"
  using assms by (auto simp: emit_def andthen_def split: option.splits sum.splits)

text \<open>The statements of an import that returns hold the statement of every attribute
  and of every meta entry.\<close>

lemma emit_attributes_member:
  assumes "snd (emit_attributes dumps n items) = None" and "item \<in> set items"
  shows "\<exists>s. attribute_stmt dumps n item = Inr s \<and> s \<in> set (fst (emit_attributes dumps n items))"
proof -
  from assms(2) obtain xs ys where "items = xs @ item # ys"
    by (auto dest: split_list)
  with emit_attributes_split [of dumps n xs item ys] assms(1) show ?thesis
    by auto
qed

lemma import_attribute_member:
  assumes "normalize fresh name data = Inr n"
    and "snd (import_oca_package dumps fresh name data) = None"
    and "attributes n = PDict items" and "item \<in> set items"
  shows "\<exists>s. attribute_stmt dumps n item = Inr s
           \<and> s \<in> set (fst (import_oca_package dumps fresh name data))"
proof -
  from assms(1,2) have "snd (emit dumps n) = None"
    by (simp add: import_normalize_Inr)
  from emit_None [OF this] assms(3) have
    a: "snd (emit_attributes dumps n items) = None"
    and f: "set (fst (emit_attributes dumps n items)) \<subseteq> set (fst (emit dumps n))"
    by (auto simp: py_items_def)
  from emit_attributes_member [OF a assms(4)] f assms(1) show ?thesis
    by (auto simp: import_normalize_Inr)
qed

lemma import_meta_member:
  assumes "normalize fresh name data = Inr n"
    and "snd (import_oca_package dumps fresh name data) = None"
    and "py_iter (meta_overlays n) = Inr metas" and "meta \<in> set metas"
    and "meta_stmt n meta = Inr ss"
  shows "set ss \<subseteq> set (fst (import_oca_package dumps fresh name data))"
proof -
  from assms(1,2) have "snd (emit dumps n) = None"
    by (simp add: import_normalize_Inr)
  from emit_None [OF this] assms(3) have
    a: "snd (emit_metas n metas) = None"
    and f: "set (fst (emit_metas n metas)) \<subseteq> set (fst (emit dumps n))"
    by auto
  from emit_metas_member [OF a assms(4,5)] f assms(1) show ?thesis
    by (auto simp: import_normalize_Inr)
qed

subsection \<open>Writes and lookups\<close>

lemma dict_get_Some_mem: "dict_get d k = Some v \<Longrightarrow> \<exists>k'. (k', v) \<in> set d \<and> key_eq k' k"
  by (induction d) (auto split: if_splits)

lemma last_write_Some:
  "(a', l', v') \<in> set ws \<Longrightarrow> key_eq a' a \<Longrightarrow> key_eq l' l \<Longrightarrow> last_write ws a l \<noteq> None"
  by (induction ws) (auto split: option.splits)

lemma last_write_snoc:
  "last_write (ws @ [(a', l', v')]) a l =
     (if key_eq a' a \<and> key_eq l' l then Some v' else last_write ws a l)"
  by (simp add: last_write_append)

lemma entry_writes_no_language:
  assumes "dict_get e (PStr ''language'') = None" and "dict_get e (PStr field) = Some (PDict items)"
  shows "entry_writes field (PDict e) = map (\<lambda>(attr, v). (attr, PStr ''unknown'', v)) items"
  using assms by (simp add: entry_writes_def)

lemma language_overlay_list:
  assumes "dict_get ov (PStr name) = Some (PList es)"
  shows "language_overlay (PDict ov) name field = fold_overlays field [] es"
  using assms by (simp add: language_overlay_def py_iter_def)


lemma no_language_written:
  assumes f: "fold_overlays field [] es = Inr acc"
    and e: "PDict e \<in> set es" "dict_get e (PStr ''language'') = None"
    and items: "dict_get e (PStr field) = Some (PDict items)" "dict_get items attr = Some v"
  shows "lookup2 acc attr (PStr ''unknown'') \<noteq> None"
proof -
  from dict_get_Some_mem [OF items(2)] obtain k where k: "(k, v) \<in> set items" "key_eq k attr"
    by blast
  then have "(k, PStr ''unknown'', v) \<in> set (entry_writes field (PDict e))"
    by (force simp: entry_writes_no_language [OF e(2) items(1)])
  with e(1) have "(k, PStr ''unknown'', v) \<in> set (concat (map (entry_writes field) es))"
    by auto
  from last_write_Some [OF this k(2), of "PStr ''unknown''"]
  show ?thesis
    using lookup2_fold_overlays [OF f, of attr "PStr ''unknown''"]
    by (auto split: option.splits)
qed

lemma no_language_last_written:
  assumes f: "fold_overlays field [] (pre @ [PDict e]) = Inr acc"
    and e: "dict_get e (PStr ''language'') = None"
    and items: "dict_get e (PStr field) = Some (PDict (its @ [(attr, v)]))"
  shows "lookup2 acc attr (PStr ''unknown'') = Some v"
proof -
  have "concat (map (entry_writes field) (pre @ [PDict e])) =
      (concat (map (entry_writes field) pre) @ map (\<lambda>(attr, v). (attr, PStr ''unknown'', v)) its)
      @ [(attr, PStr ''unknown'', v)]"
    by (simp add: entry_writes_no_language [OF e items])
  then have "last_write (concat (map (entry_writes field) (pre @ [PDict e]))) attr (PStr ''unknown'')
      = Some v"
    by (simp only: last_write_snoc) simp
  then show ?thesis
    using lookup2_fold_overlays [OF f, of attr "PStr ''unknown''"] by simp
qed

lemma emit_metas_all_dicts:
  assumes "snd (emit_metas n metas) = None" and "meta \<in> set metas"
  shows "is_dict meta"
  using assms
proof (induction metas)
  case Nil
  then show ?case by simp
next
  case (Cons m metas)
  from emit_metas_None [OF Cons.prems(1)] obtain ss where
    m: "meta_stmt n m = Inr ss" and r: "snd (emit_metas n metas) = None"
    by blast
  from m have "is_dict m"
    by (cases m) (simp_all add: meta_stmt_def py_get_def)
  with Cons.IH [OF r] Cons.prems(2) show ?case by auto
qed

lemma import_returns_metas:
  assumes "normalize fresh name data = Inr n"
    and "snd (import_oca_package dumps fresh name data) = None"
  shows "\<exists>metas. py_iter (meta_overlays n) = Inr metas \<and> list_all is_dict metas"
proof -
  from assms have "snd (emit dumps n) = None"
    by (simp add: import_normalize_Inr)
  from emit_None [OF this] obtain metas where
    "py_iter (meta_overlays n) = Inr metas" "snd (emit_metas n metas) = None"
    by blast
  with emit_metas_all_dicts [of n metas] show ?thesis
    by (auto simp: list_all_iff)
qed

subsection \<open>The properties after an Attribute statement\<close>

lemma attribute_stmt_props:
  assumes "attribute_stmt dumps n (a, t) = Inr s"
    and "exec g s = Some g'"
  shows "list_ex (matches ''Attribute'' [(''name'', a)]) (nodes g')
       \<and> (\<forall>nd \<in> set (nodes g'). matches ''Attribute'' [(''name'', a)] nd \<longrightarrow>
            props nd ''type'' = stored t
          \<and> props nd ''unit'' = stored (overlay_value (units n) a)
          \<and> props nd ''description'' =
              stored (dumps_or_none dumps (by_language_get (attribute_descriptions n) a))
          \<and> props nd ''format'' = stored (overlay_value (attribute_formats n) a)
          \<and> props nd ''vocabulary'' =
              stored (dumps_or_none dumps (by_language_get (controlled_vocabularies n) a))
          \<and> props nd ''codes'' = stored (dumps_or_none dumps (overlay_value (entry_codes n) a)))"
proof -
  let ?key = "[(''name'', a)]"
  let ?u = "overlay_value (units n) a"
  let ?d = "dumps_or_none dumps (by_language_get (attribute_descriptions n) a)"
  let ?f = "overlay_value (attribute_formats n) a"
  let ?v = "dumps_or_none dumps (by_language_get (controlled_vocabularies n) a)"
  let ?c = "dumps_or_none dumps (overlay_value (entry_codes n) a)"
  let ?kvs = "[(''type'', t), (''unit'', ?u), (''description'', ?d), (''format'', ?f),
               (''vocabulary'', ?v), (''codes'', ?c)]"
  from assms(1) have s: "s = MergeAttribute a t ?u ?d ?f ?v ?c (schema_id n)"
    by (auto simp: attribute_stmt_def bind_eq_Inr Let_def dest!: py_get_overlay_value)
  from assms(2) s have nn: "\<not> null_in ?key"
    and g': "g' = merge_edges ''HAS_ATTRIBUTE'' (schema_id n) ''Attribute'' ?key
                   (set_matching ''Attribute'' ?key ?kvs (merge_node ''Attribute'' ?key g))"
    by (auto split: if_splits)
  have "list_ex (matches ''Attribute'' ?key) (nodes (merge_node ''Attribute'' ?key g))"
    using merge_node_has_match [OF nn] by simp
  then have ex: "list_ex (matches ''Attribute'' ?key) (nodes g')"
    unfolding g' nodes_merge_edges
    by (intro set_matching_keeps_match) simp_all
  have all: "props nd ''type'' = stored t \<and> props nd ''unit'' = stored ?u
      \<and> props nd ''description'' = stored ?d \<and> props nd ''format'' = stored ?f
      \<and> props nd ''vocabulary'' = stored ?v \<and> props nd ''codes'' = stored ?c"
    if "nd \<in> set (nodes g')" "matches ''Attribute'' ?key nd" for nd
  proof -
    from that have "nd \<in> set (nodes (set_matching ''Attribute'' ?key ?kvs
                                      (merge_node ''Attribute'' ?key g)))"
      by (simp add: g')
    from set_matching_matched_props [OF this that(2)]
    obtain m where "props nd = set_props ?kvs m" by blast
    then show ?thesis by (simp add: set_props_six)
  qed
  show ?thesis using ex all by blast
qed

subsection \<open>Meta nodes\<close>

lemma emit_metas_named:
  assumes "s \<in> set (fst (emit_metas n metas))"
  shows "named s"
  using assms
proof (induction metas)
  case Nil
  then show ?case by simp
next
  case (Cons meta metas)
  show ?case
  proof (cases "meta_stmt n meta")
    case (Inl e)
    with Cons.prems show ?thesis by simp
  next
    case (Inr ss)
    then have "x \<in> set ss \<Longrightarrow> named x" for x
      by (auto simp: meta_stmt_def bind_eq_Inr split: if_splits)
    moreover from Inr Cons.prems
    have "s \<in> set ss \<or> s \<in> set (fst (emit_metas n metas))"
      using fst_andthen [of "(ss, None)" "emit_metas n metas"] by auto
    ultimately show ?thesis using Cons.IH by auto
  qed
qed

lemma not_meta_named: "\<not> is_merge_meta s \<Longrightarrow> named s"
  by (cases s) simp_all

lemma emit_named:
  assumes "s \<in> set (fst (emit dumps n))"
  shows "named s"
proof -
  from emit_members [OF assms] consider
    (schema) "s = MergeSchema (schema_id n) (PStr (schema_name n)) (capture_base_id n) (schema_type n)"
    | (attr) items where "s \<in> set (fst (emit_attributes dumps n items))"
    | (meta) metas where "s \<in> set (fst (emit_metas n metas))"
    | (ord) "s \<in> set (fst (emit_ordering dumps n))"
    by blast
  then show ?thesis
  proof cases
    case schema
    then show ?thesis by simp
  next
    case attr
    from emit_attributes_pattern [OF this] have "fst (pattern s) = ''Attribute''"
      by auto
    then have "\<not> is_merge_meta s" by (simp add: is_merge_meta_pattern)
    then show ?thesis by (rule not_meta_named)
  next
    case meta
    then show ?thesis by (rule emit_metas_named)
  next
    case ord
    from emit_ordering_pattern [OF this] have "\<not> is_merge_meta s"
      by (simp add: is_merge_meta_pattern)
    then show ?thesis by (rule not_meta_named)
  qed
qed

lemma import_named: "s \<in> set (fst (import_oca_package dumps fresh name data)) \<Longrightarrow> named s"
  by (cases "normalize fresh name data") (auto simp: import_oca_package_def emit_named)

lemma upd_meta_name:
  assumes "label nd = ''Meta''"
  shows "props (upd s nd) ''name'' = props nd ''name''"
proof (cases "targets s nd")
  case False
  then show ?thesis by (simp add: upd_def)
next
  case True
  with assms have "fst (pattern s) = ''Meta''"
    by (simp add: targets_def matches_def)
  then have "''name'' \<notin> fst ` set (assignments s)"
    by (cases s) simp_all
  from set_props_other [OF this] True show ?thesis
    by (simp add: upd_def)
qed

lemma fresh_meta_name:
  "label (fresh_node s) = ''Meta'' \<Longrightarrow> named s \<Longrightarrow>
     (case props (fresh_node s) ''name'' of None \<Rightarrow> False | Some v \<Rightarrow> truthy v)"
  by (cases s) (auto simp: fresh_node_def)

lemma named_metas_exec:
  assumes "exec g s = Some g'" and "named_metas g" and "named s"
  shows "named_metas g'"
proof -
  have "if label (upd s nd) = ''Meta''
        then (case props (upd s nd) ''name'' of None \<Rightarrow> False | Some v \<Rightarrow> truthy v) else True"
    if "nd \<in> set (grown s g)" for nd
  proof (cases "nd \<in> set (nodes g)")
    case True
    with assms(2) show ?thesis
      by (auto simp: named_metas_def list_all_iff upd_meta_name split: if_splits)
  next
    case False
    with that have "nd = fresh_node s"
      by (auto simp: grown_def split: if_splits)
    with assms(3) show ?thesis
      using fresh_meta_name [of s] by (auto simp: upd_meta_name)
  qed
  then show ?thesis
    by (simp add: named_metas_def list_all_iff nodes_exec [OF assms(1)])
qed

lemma named_metas_run:
  "named_metas g \<Longrightarrow> list_all named ss \<Longrightarrow> named_metas (run g ss)"
proof (induction ss arbitrary: g)
  case Nil
  then show ?case by simp
next
  case (Cons s ss)
  then show ?case
    by (cases "exec g s") (auto dest: named_metas_exec)
qed

lemma named_metas_import:
  "named_metas g \<Longrightarrow> named_metas (import_into dumps fresh name data g)"
  unfolding import_into_def
  by (rule named_metas_run) (auto simp: list_all_iff import_named)

lemma present_after_import:
  assumes "normalize fresh name data = Inr n"
    and "returns (import_oca_package dumps fresh name data)"
    and "s \<in> set (fst (import_oca_package dumps fresh name data))"
  shows "settled s (import_into dumps fresh name data g)"
proof -
  have "shaped (schema_id n) (fst (import_oca_package dumps fresh name data))"
    using emit_shaped [of n dumps] assms(1) by (simp add: import_normalize_Inr)
  moreover from assms(2) have
    "list_all (\<lambda>s. \<not> rejected s) (fst (import_oca_package dumps fresh name data))"
    by (simp add: returns_def)
  ultimately show ?thesis
    unfolding import_into_def using assms(3) by (rule run_shaped_settled)
qed

lemma settled_import: "settled s g \<Longrightarrow> settled s (import_into dumps fresh name data g)"
  by (simp add: import_into_def settled_run)

lemma cnt_import_le1: "cnt s g \<le> 1 \<Longrightarrow> cnt s (import_into dumps fresh name data g) \<le> 1"
  unfolding import_into_def by (rule cnt_run_le1)

lemma settled_cnt_1: "settled s g \<Longrightarrow> cnt s g \<le> 1 \<Longrightarrow> cnt s g = 1"
  using settled_present [of s g] by (simp add: present_cnt)

lemma match_ids_disjoint:
  assumes "pattern s \<noteq> pattern s'"
  shows "set (match_ids (fst (pattern s)) (snd (pattern s)) g)
       \<inter> set (match_ids (fst (pattern s')) (snd (pattern s')) g) = {}"
proof -
  have False if "targets s (nodes g ! i)" "targets s' (nodes g ! i)" for i
    using targets_same_pattern [OF that] assms by simp
  then show ?thesis
    unfolding set_match_ids targets_def [symmetric] by blast
qed

section \<open>The schema identifier\<close>

text \<open>
  C8, as the code has it. Line 52 is \<^verbatim>\<open>data.get("d") or str(uuid.uuid4())\<close>: the schema id
  is the document's top-level id when that value is truthy, and the fresh identifier
  otherwise, that is when the id is absent, null, false, zero or empty. Every statement
  the import runs carries this schema id.
\<close>

theorem schema_id_is_truthy_id_or_fresh:
  assumes "normalize fresh name data = Inr n"
    and "py_get data (PStr ''d'') PNone = Inr d"
  shows "schema_id n = (if truthy d then d else PStr fresh)
       \<and> list_all (\<lambda>s. stmt_schema_id s = schema_id n)
            (fst (import_oca_package dumps fresh name data))"
proof -
  from normalize_schema_id [OF assms(1)] assms(2)
  have "schema_id n = (if truthy d then d else PStr fresh)"
    by (simp add: schema_id_of_def)
  moreover have "list_all (\<lambda>s. stmt_schema_id s = schema_id n)
      (fst (import_oca_package dumps fresh name data))"
    using assms(1) emit_schema_id [of _ dumps n]
    by (simp add: import_oca_package_def list_all_iff)
  ultimately show ?thesis by simp
qed

theorem schema_id_is_truthy_id_or_fresh_witness:
  "list_all (\<lambda>s. stmt_schema_id s = PStr ''S1'')
     (fst (import_oca_package (\<lambda>v. ''{}'') ''6fa1'' ''person'' (PDict [(PStr ''d'', PStr ''S1'')])))"
proof -
  have n: "normalize ''6fa1'' ''person'' (PDict [(PStr ''d'', PStr ''S1'')]) =
      Inr \<lparr> schema_id = PStr ''S1'', schema_name = ''person'', capture_base_id = PNone,
            schema_type = PStr ''oca_package/1.0'', attributes = PDict [], units = PDict [],
            attribute_descriptions = [], controlled_vocabularies = [], entry_codes = PDict [],
            attribute_formats = PDict [], meta_overlays = PList [], ordering_data = None \<rparr>"
    by code_simp
  have d: "py_get (PDict [(PStr ''d'', PStr ''S1'')]) (PStr ''d'') PNone = Inr (PStr ''S1'')"
    by simp
  from schema_id_is_truthy_id_or_fresh [OF n d, of "\<lambda>v. ''{}''"] show ?thesis
    by simp
qed

text \<open>
  C8 as stated fails: a document whose top-level id is the empty string provides an id,
  and the import uses the fresh identifier instead.
\<close>

theorem empty_id_replaced_counterexample:
  "py_get (PDict [(PStr ''d'', PStr [])]) (PStr ''d'') PNone = Inr (PStr [])
   \<and> import_oca_package (\<lambda>v. ''{}'') ''6fa1'' ''person'' (PDict [(PStr ''d'', PStr [])])
       = ([MergeSchema (PStr ''6fa1'') (PStr ''person'') PNone (PStr ''oca_package/1.0'')], None)"
  by code_simp

section \<open>Entries without a language\<close>

text \<open>
  C10. An information or entry overlay entry, or a meta entry, that has no
  \<^verbatim>\<open>language\<close> key is processed with the language \<^verbatim>\<open>"unknown"\<close>, and is not skipped.
  Whenever the normalisation returns, every attribute that such an information (entry)
  overlay entry names has a description (a vocabulary) under \<^verbatim>\<open>"unknown"\<close> in the folded
  result, and it is the entry's own value when the entry is the last one and the
  attribute its last item. Whenever the import returns, the statements it has run hold
  the Meta statement of such a meta entry, if its name is truthy, with the language
  \<^verbatim>\<open>"unknown"\<close>. The missing key is no cause of failure: the step of the fold and the
  body of the meta loop are those of the same entry with the language \<^verbatim>\<open>"unknown"\<close>.
\<close>

theorem missing_language_is_unknown:
  assumes "dict_get e (PStr ''language'') = None"
    and "normalize fresh name data = Inr n"
    and "overlays_of data = Inr (PDict ov)"
  shows "(dict_get ov (PStr ''information'') = Some (PList es)
          \<and> dict_get e (PStr ''attribute_information'') = Some (PDict items) \<longrightarrow>
            (PDict e \<in> set es \<and> dict_get items attr = Some v \<longrightarrow>
               lookup2 (attribute_descriptions n) attr (PStr ''unknown'') \<noteq> None)
          \<and> (es = pre @ [PDict e] \<and> items = its @ [(attr, v)] \<longrightarrow>
               lookup2 (attribute_descriptions n) attr (PStr ''unknown'') = Some v))
       \<and> (dict_get ov (PStr ''entry'') = Some (PList es)
          \<and> dict_get e (PStr ''attribute_entries'') = Some (PDict items) \<longrightarrow>
            (PDict e \<in> set es \<and> dict_get items attr = Some v \<longrightarrow>
               lookup2 (controlled_vocabularies n) attr (PStr ''unknown'') \<noteq> None)
          \<and> (es = pre @ [PDict e] \<and> items = its @ [(attr, v)] \<longrightarrow>
               lookup2 (controlled_vocabularies n) attr (PStr ''unknown'') = Some v))
       \<and> (dict_get ov (PStr ''meta'') = Some (PList ms) \<and> PDict e \<in> set ms
          \<and> dict_get e (PStr ''name'') = Some nm \<and> truthy nm
          \<and> snd (import_oca_package dumps fresh name data) = None \<longrightarrow>
            MergeMeta nm (case dict_get e (PStr ''description'') of Some d \<Rightarrow> d | None \<Rightarrow> PNone)
              (PStr ''unknown'') (schema_id n)
            \<in> set (fst (import_oca_package dumps fresh name data)))
       \<and> fold_overlays field acc (PDict e # rest) =
           bind (py_get (PDict e) (PStr field) (PDict [])) (\<lambda>attr_info.
           bind (py_items attr_info) (\<lambda>items.
           bind (fold_items acc (PStr ''unknown'') items) (\<lambda>acc'.
           fold_overlays field acc' rest)))
       \<and> meta_stmt n (PDict e) =
           Inr (if truthy (case dict_get e (PStr ''name'') of Some x \<Rightarrow> x | None \<Rightarrow> PNone)
                then [MergeMeta (case dict_get e (PStr ''name'') of Some x \<Rightarrow> x | None \<Rightarrow> PNone)
                        (case dict_get e (PStr ''description'') of Some d \<Rightarrow> d | None \<Rightarrow> PNone)
                        (PStr ''unknown'') (schema_id n)]
                else [])"
proof -
  from normalize_steps [OF assms(2)] assms(3) have
    info: "language_overlay (PDict ov) ''information'' ''attribute_information''
             = Inr (attribute_descriptions n)"
    and entry: "language_overlay (PDict ov) ''entry'' ''attribute_entries''
             = Inr (controlled_vocabularies n)"
    and meta: "py_get (PDict ov) (PStr ''meta'') (PList []) = Inr (meta_overlays n)"
    by auto
  have ms: "meta_stmt n (PDict e) =
           Inr (if truthy (case dict_get e (PStr ''name'') of Some x \<Rightarrow> x | None \<Rightarrow> PNone)
                then [MergeMeta (case dict_get e (PStr ''name'') of Some x \<Rightarrow> x | None \<Rightarrow> PNone)
                        (case dict_get e (PStr ''description'') of Some d \<Rightarrow> d | None \<Rightarrow> PNone)
                        (PStr ''unknown'') (schema_id n)]
                else [])"
    using assms(1) by (simp add: meta_stmt_def)
  have 1: "lookup2 (attribute_descriptions n) attr (PStr ''unknown'') \<noteq> None"
    if "dict_get ov (PStr ''information'') = Some (PList es)"
      "dict_get e (PStr ''attribute_information'') = Some (PDict items)"
      "PDict e \<in> set es" "dict_get items attr = Some v"
    using info no_language_written [OF _ that(3) assms(1) that(2,4)]
    by (simp add: language_overlay_list [OF that(1)])
  have 2: "lookup2 (attribute_descriptions n) attr (PStr ''unknown'') = Some v"
    if "dict_get ov (PStr ''information'') = Some (PList (pre @ [PDict e]))"
      "dict_get e (PStr ''attribute_information'') = Some (PDict (its @ [(attr, v)]))"
    using info no_language_last_written [OF _ assms(1) that(2)]
    by (simp add: language_overlay_list [OF that(1)])
  have 3: "lookup2 (controlled_vocabularies n) attr (PStr ''unknown'') \<noteq> None"
    if "dict_get ov (PStr ''entry'') = Some (PList es)"
      "dict_get e (PStr ''attribute_entries'') = Some (PDict items)"
      "PDict e \<in> set es" "dict_get items attr = Some v"
    using entry no_language_written [OF _ that(3) assms(1) that(2,4)]
    by (simp add: language_overlay_list [OF that(1)])
  have 4: "lookup2 (controlled_vocabularies n) attr (PStr ''unknown'') = Some v"
    if "dict_get ov (PStr ''entry'') = Some (PList (pre @ [PDict e]))"
      "dict_get e (PStr ''attribute_entries'') = Some (PDict (its @ [(attr, v)]))"
    using entry no_language_last_written [OF _ assms(1) that(2)]
    by (simp add: language_overlay_list [OF that(1)])
  have 5: "MergeMeta nm (case dict_get e (PStr ''description'') of Some d \<Rightarrow> d | None \<Rightarrow> PNone)
              (PStr ''unknown'') (schema_id n)
            \<in> set (fst (import_oca_package dumps fresh name data))"
    if "dict_get ov (PStr ''meta'') = Some (PList ms)" "PDict e \<in> set ms"
      "dict_get e (PStr ''name'') = Some nm" "truthy nm"
      "snd (import_oca_package dumps fresh name data) = None"
  proof -
    from meta that(1) have "meta_overlays n = PList ms"
      by simp
    then have "py_iter (meta_overlays n) = Inr ms"
      by (simp add: py_iter_def)
    from import_meta_member [OF assms(2) that(5) this that(2) ms] that(3,4)
    show ?thesis by simp
  qed
  have 6: "fold_overlays field acc (PDict e # rest) =
           bind (py_get (PDict e) (PStr field) (PDict [])) (\<lambda>attr_info.
           bind (py_items attr_info) (\<lambda>items.
           bind (fold_items acc (PStr ''unknown'') items) (\<lambda>acc'.
           fold_overlays field acc' rest)))"
    using assms(1) by simp
  show ?thesis
    using 1 2 3 4 5 6 ms by blast
qed

theorem missing_language_is_unknown_witness:
  "lookup2 [(PStr ''dob'', [(PStr ''unknown'', PStr ''Date of birth'')])] (PStr ''dob'') (PStr ''unknown'')
     = Some (PStr ''Date of birth'')
   \<and> MergeMeta (PStr ''title'') (PStr ''A form'') (PStr ''unknown'') (PStr ''S1'')
     \<in> set (fst (import_oca_package (\<lambda>v. ''{}'') ''6fa1'' ''person''
         (PDict [(PStr ''d'', PStr ''S1''),
                 (PStr ''oca_bundle'', PDict [(PStr ''bundle'', PDict [(PStr ''overlays'', PDict
                    [(PStr ''information'', PList
                        [PDict [(PStr ''attribute_information'',
                                 PDict [(PStr ''dob'', PStr ''Date of birth'')])]]),
                     (PStr ''meta'', PList
                        [PDict [(PStr ''name'', PStr ''title''),
                                (PStr ''description'', PStr ''A form'')]])])])])])))"
proof -
  let ?e1 = "[(PStr ''attribute_information'', PDict [(PStr ''dob'', PStr ''Date of birth'')])]"
  let ?e2 = "[(PStr ''name'', PStr ''title''), (PStr ''description'', PStr ''A form'')]"
  let ?ov = "[(PStr ''information'', PList [PDict ?e1]), (PStr ''meta'', PList [PDict ?e2])]"
  let ?data = "PDict [(PStr ''d'', PStr ''S1''),
                 (PStr ''oca_bundle'', PDict [(PStr ''bundle'', PDict [(PStr ''overlays'', PDict ?ov)])])]"
  let ?n = "\<lparr> schema_id = PStr ''S1'', schema_name = ''person'', capture_base_id = PNone,
            schema_type = PStr ''oca_package/1.0'', attributes = PDict [], units = PDict [],
            attribute_descriptions = [(PStr ''dob'', [(PStr ''unknown'', PStr ''Date of birth'')])],
            controlled_vocabularies = [], entry_codes = PDict [],
            attribute_formats = PDict [], meta_overlays = PList [PDict ?e2],
            ordering_data = None \<rparr>"
  have n: "normalize ''6fa1'' ''person'' ?data = Inr ?n"
    by code_simp
  have ov: "overlays_of ?data = Inr (PDict ?ov)"
    by (simp add: overlays_of_def)
  have r: "snd (import_oca_package (\<lambda>v. ''{}'') ''6fa1'' ''person'' ?data) = None"
    by code_simp
  have e1: "dict_get ?e1 (PStr ''language'') = None" by simp
  have e2: "dict_get ?e2 (PStr ''language'') = None" by simp
  have a: "lookup2 (attribute_descriptions ?n) (PStr ''dob'') (PStr ''unknown'')
             = Some (PStr ''Date of birth'')"
    using missing_language_is_unknown [OF e1 n ov, where es = "[PDict ?e1]"
        and items = "[(PStr ''dob'', PStr ''Date of birth'')]" and pre = "[]" and its = "[]"
        and attr = "PStr ''dob''" and v = "PStr ''Date of birth''"]
    by simp
  have b: "MergeMeta (PStr ''title'') (PStr ''A form'') (PStr ''unknown'') (schema_id ?n)
     \<in> set (fst (import_oca_package (\<lambda>v. ''{}'') ''6fa1'' ''person'' ?data))"
    using missing_language_is_unknown [OF e2 n ov, where ms = "[PDict ?e2]"
        and nm = "PStr ''title''" and dumps = "\<lambda>v. ''{}''"] r
    by simp
  from a b show ?thesis by simp
qed

section \<open>Ordering\<close>

text \<open>
  C6. When the \<^verbatim>\<open>adc\<close> extension is a mapping that does not have the document's capture
  base id as a key, the extracted ordering data is empty and the import runs no
  statement that sets \<^verbatim>\<open>attribute_ordering\<close> and \<^verbatim>\<open>entry_code_ordering\<close>. This includes the
  document without a capture base id: the id is then \<^verbatim>\<open>None\<close>, which is not a key of a
  mapping read from JSON, whose keys are strings.
\<close>

theorem ordering_omitted_without_adc_key:
  assumes "normalize fresh name data = Inr n"
    and "py_get data (PStr ''extensions'') (PDict []) = Inr extensions"
    and "py_get extensions (PStr ''adc'') (PDict []) = Inr (PDict adc)"
  shows "(dict_get adc (capture_base_id n) = None \<longrightarrow>
            ordering_data n = None
          \<and> list_all (\<lambda>s. \<not> is_set_ordering s) (fst (import_oca_package dumps fresh name data)))
       \<and> (capture_base_id n = PNone \<and> list_all is_str (map fst adc) \<longrightarrow>
            dict_get adc (capture_base_id n) = None)"
proof -
  have "ordering_data n = None" if "dict_get adc (capture_base_id n) = None"
    using normalize_ordering [OF assms(1)] assms(2,3) that
    by (auto simp: ordering_of_def py_in_def split: if_splits)
  then show ?thesis
    using assms(1) emit_no_ordering [of n _ dumps] dict_get_str_keys [of adc PNone]
    by (auto simp: import_oca_package_def list_all_iff)
qed

theorem ordering_omitted_without_adc_key_witness:
  "list_all (\<lambda>s. \<not> is_set_ordering s)
     (fst (import_oca_package (\<lambda>v. ''{}'') ''6fa1'' ''person''
        (PDict [(PStr ''d'', PStr ''S1''),
                (PStr ''oca_bundle'', PDict [(PStr ''bundle'', PDict
                   [(PStr ''capture_base'', PDict [(PStr ''d'', PStr ''CB1'')])])]),
                (PStr ''extensions'', PDict [(PStr ''adc'', PDict
                   [(PStr ''CB2'', PDict [(PStr ''overlays'', PDict [(PStr ''ordering'', PDict
                      [(PStr ''attribute_ordering'', PList [PStr ''dob''])])])])])])])))"
proof -
  let ?adc = "[(PStr ''CB2'', PDict [(PStr ''overlays'', PDict [(PStr ''ordering'', PDict
                 [(PStr ''attribute_ordering'', PList [PStr ''dob''])])])])]"
  let ?ext = "PDict [(PStr ''adc'', PDict ?adc)]"
  let ?data = "PDict [(PStr ''d'', PStr ''S1''),
                (PStr ''oca_bundle'', PDict [(PStr ''bundle'', PDict
                   [(PStr ''capture_base'', PDict [(PStr ''d'', PStr ''CB1'')])])]),
                (PStr ''extensions'', ?ext)]"
  have n: "normalize ''6fa1'' ''person'' ?data =
      Inr \<lparr> schema_id = PStr ''S1'', schema_name = ''person'', capture_base_id = PStr ''CB1'',
            schema_type = PStr ''oca_package/1.0'', attributes = PDict [], units = PDict [],
            attribute_descriptions = [], controlled_vocabularies = [], entry_codes = PDict [],
            attribute_formats = PDict [], meta_overlays = PList [], ordering_data = None \<rparr>"
    by code_simp
  have e: "py_get ?data (PStr ''extensions'') (PDict []) = Inr ?ext"
    by simp
  have a: "py_get ?ext (PStr ''adc'') (PDict []) = Inr (PDict ?adc)"
    by simp
  from ordering_omitted_without_adc_key [OF n e a, of "\<lambda>v. ''{}''"] show ?thesis
    by simp
qed

section \<open>Missing sections\<close>

text \<open>
  C5. A document whose \<^verbatim>\<open>overlays\<close> section is the empty mapping, whose capture base
  declares exactly one attribute and which has no \<^verbatim>\<open>extensions\<close> is imported without an
  exception: the import runs the Schema statement and exactly one Attribute statement,
  whose unit, description, format, vocabulary and codes are all null. (The capture base
  id is a scalar or absent, as in any document that is an OCA bundle: line 104 looks it
  up as a key.)
\<close>

theorem empty_overlays_one_attribute:
  assumes "dict_get d (PStr ''oca_bundle'') = Some (PDict ob)"
    and "dict_get ob (PStr ''bundle'') = Some (PDict b)"
    and "dict_get b (PStr ''capture_base'') = Some (PDict cb)"
    and "dict_get b (PStr ''overlays'') = Some (PDict [])"
    and "dict_get cb (PStr ''attributes'') = Some (PDict [(a, t)])"
    and "py_get (PDict cb) (PStr ''d'') PNone = Inr cbid"
    and "hashable cbid"
    and "dict_get d (PStr ''extensions'') = None"
    and "schema_id_of fresh (PDict d) = Inr sid"
    and "py_get (PDict d) (PStr ''type'') (PStr ''oca_package/1.0'') = Inr ty"
  shows "import_oca_package dumps fresh name (PDict d) =
           ([MergeSchema sid (PStr name) cbid ty,
             MergeAttribute a t PNone PNone PNone PNone PNone sid], None)"
  using assms
  by (simp add: import_oca_package_def normalize_def ordering_of_def py_in_def
      emit_def andthen_def py_items_def py_iter_def attribute_stmt_def emit_ordering_def
      by_language_get_def dumps_or_none_def)

theorem empty_overlays_one_attribute_witness:
  "import_oca_package (\<lambda>v. ''{}'') ''6fa1'' ''person''
     (PDict [(PStr ''oca_bundle'', PDict [(PStr ''bundle'', PDict
        [(PStr ''capture_base'', PDict [(PStr ''attributes'', PDict [(PStr ''name'', PStr ''Text'')])]),
         (PStr ''overlays'', PDict [])])])])
   = ([MergeSchema (PStr ''6fa1'') (PStr ''person'') PNone (PStr ''oca_package/1.0''),
       MergeAttribute (PStr ''name'') (PStr ''Text'') PNone PNone PNone PNone PNone (PStr ''6fa1'')],
      None)"
proof -
  let ?cb = "[(PStr ''attributes'', PDict [(PStr ''name'', PStr ''Text'')])]"
  let ?b = "[(PStr ''capture_base'', PDict ?cb), (PStr ''overlays'', PDict [])]"
  let ?ob = "[(PStr ''bundle'', PDict ?b)]"
  let ?d = "[(PStr ''oca_bundle'', PDict ?ob)]"
  have 1: "dict_get ?d (PStr ''oca_bundle'') = Some (PDict ?ob)" by simp
  have 2: "dict_get ?ob (PStr ''bundle'') = Some (PDict ?b)" by simp
  have 3: "dict_get ?b (PStr ''capture_base'') = Some (PDict ?cb)" by simp
  have 4: "dict_get ?b (PStr ''overlays'') = Some (PDict [])" by simp
  have 5: "dict_get ?cb (PStr ''attributes'') = Some (PDict [(PStr ''name'', PStr ''Text'')])"
    by simp
  have 6: "py_get (PDict ?cb) (PStr ''d'') PNone = Inr PNone" by simp
  have 7: "hashable PNone" by simp
  have 8: "dict_get ?d (PStr ''extensions'') = None" by simp
  have 9: "schema_id_of ''6fa1'' (PDict ?d) = Inr (PStr ''6fa1'')"
    by (simp add: schema_id_of_def)
  have 10: "py_get (PDict ?d) (PStr ''type'') (PStr ''oca_package/1.0'')
              = Inr (PStr ''oca_package/1.0'')"
    by simp
  show ?thesis
    by (rule empty_overlays_one_attribute [OF 1 2 3 4 5 6 7 8 9 10])
qed

section \<open>Sections of an unexpected shape\<close>




section \<open>Folding the language overlays\<close>

text \<open>
  C3. The fold of the \<^verbatim>\<open>information\<close> and \<^verbatim>\<open>entry\<close> overlays, when it returns, holds for
  every attribute and language the value of the last write to that pair, the writes
  being those of the entries in order, each entry writing its items under its language.
  In particular the two information entries for \<^verbatim>\<open>en\<close> and \<^verbatim>\<open>fr\<close> over \<^verbatim>\<open>dob\<close> fold to
  \<^verbatim>\<open>{"dob": {"en": "Date of birth", "fr": "Date de naissance"}}\<close>.
\<close>

theorem language_overlays_last_write_wins:
  assumes "fold_overlays field [] es = Inr acc"
  shows "lookup2 acc attr lang = last_write (concat (map (entry_writes field) es)) attr lang
       \<and> language_overlay
           (PDict [(PStr ''information'', PList
              [PDict [(PStr ''language'', PStr ''en''),
                      (PStr ''attribute_information'', PDict [(PStr ''dob'', PStr ''Date of birth'')])],
               PDict [(PStr ''language'', PStr ''fr''),
                      (PStr ''attribute_information'', PDict [(PStr ''dob'', PStr ''Date de naissance'')])]])])
           ''information'' ''attribute_information''
         = Inr [(PStr ''dob'', [(PStr ''en'', PStr ''Date of birth''),
                               (PStr ''fr'', PStr ''Date de naissance'')])]"
proof -
  have "lookup2 acc attr lang = last_write (concat (map (entry_writes field) es)) attr lang"
    using lookup2_fold_overlays [OF assms, of attr lang]
    by (simp add: lookup2_def split: option.splits)
  moreover have "language_overlay
           (PDict [(PStr ''information'', PList
              [PDict [(PStr ''language'', PStr ''en''),
                      (PStr ''attribute_information'', PDict [(PStr ''dob'', PStr ''Date of birth'')])],
               PDict [(PStr ''language'', PStr ''fr''),
                      (PStr ''attribute_information'', PDict [(PStr ''dob'', PStr ''Date de naissance'')])]])])
           ''information'' ''attribute_information''
         = Inr [(PStr ''dob'', [(PStr ''en'', PStr ''Date of birth''),
                               (PStr ''fr'', PStr ''Date de naissance'')])]"
    by code_simp
  ultimately show ?thesis by simp
qed

theorem language_overlays_last_write_wins_witness:
  "lookup2 [(PStr ''dob'', [(PStr ''en'', PStr ''Birth date'')])] (PStr ''dob'') (PStr ''en'')
     = last_write (concat (map (entry_writes ''attribute_information'')
         [PDict [(PStr ''language'', PStr ''en''),
                 (PStr ''attribute_information'', PDict [(PStr ''dob'', PStr ''Date of birth'')])],
          PDict [(PStr ''language'', PStr ''en''),
                 (PStr ''attribute_information'', PDict [(PStr ''dob'', PStr ''Birth date'')])]]))
         (PStr ''dob'') (PStr ''en'')
   \<and> last_write (concat (map (entry_writes ''attribute_information'')
         [PDict [(PStr ''language'', PStr ''en''),
                 (PStr ''attribute_information'', PDict [(PStr ''dob'', PStr ''Date of birth'')])],
          PDict [(PStr ''language'', PStr ''en''),
                 (PStr ''attribute_information'', PDict [(PStr ''dob'', PStr ''Birth date'')])]]))
         (PStr ''dob'') (PStr ''en'') = Some (PStr ''Birth date'')"
proof -
  have f: "fold_overlays ''attribute_information'' []
         [PDict [(PStr ''language'', PStr ''en''),
                 (PStr ''attribute_information'', PDict [(PStr ''dob'', PStr ''Date of birth'')])],
          PDict [(PStr ''language'', PStr ''en''),
                 (PStr ''attribute_information'', PDict [(PStr ''dob'', PStr ''Birth date'')])]]
       = Inr [(PStr ''dob'', [(PStr ''en'', PStr ''Birth date'')])]"
    by code_simp
  from language_overlays_last_write_wins [OF f, of "PStr ''dob''" "PStr ''en''"]
  show ?thesis
    by (simp add: lookup2_def)
qed

section \<open>The Attribute statement\<close>




section \<open>Running the statements of a document twice\<close>

text \<open>
  C1. The statements that the import of a document runs, run a second time on the graph
  they have produced, leave that graph as it is: the same nodes, the same edges, the
  same properties. This holds from any graph, for any document, and also when the
  function raises or a statement is rejected part of the way (the statements run are
  then the same both times). When the document has a truthy top-level id, the
  statements do not depend on the fresh identifier, so importing the document again
  gives the same graph whatever identifier is drawn.
\<close>

theorem import_twice_same_graph:
  "import_into dumps fresh name data (import_into dumps fresh name data g)
     = import_into dumps fresh name data g
   \<and> (\<forall>d fresh'. py_get data (PStr ''d'') PNone = Inr d \<and> truthy d \<longrightarrow>
        import_into dumps fresh' name data (import_into dumps fresh name data g)
          = import_into dumps fresh name data g)"
proof -
  obtain sid where "shaped sid (fst (import_oca_package dumps fresh name data))"
    using import_shaped by blast
  then have same: "import_into dumps fresh name data (import_into dumps fresh name data g)
      = import_into dumps fresh name data g"
    unfolding import_into_def by (rule run_shaped_twice)
  have other: "import_into dumps fresh' name data (import_into dumps fresh name data g)
      = import_into dumps fresh name data g"
    if "py_get data (PStr ''d'') PNone = Inr d" "truthy d" for d fresh'
  proof -
    have "normalize fresh' name data = normalize fresh name data"
      using that by (rule normalize_fresh_unused)
    then have "import_oca_package dumps fresh' name data = import_oca_package dumps fresh name data"
      unfolding import_oca_package_def by (rule arg_cong)
    then have "import_into dumps fresh' name data (import_into dumps fresh name data g)
        = import_into dumps fresh name data (import_into dumps fresh name data g)"
      unfolding import_into_def by (rule arg_cong)
    with same show ?thesis by (rule trans [rotated])
  qed
  show ?thesis
  proof (intro conjI allI impI)
    show "import_into dumps fresh name data (import_into dumps fresh name data g)
        = import_into dumps fresh name data g"
      by (rule same)
  next
    fix d fresh'
    assume "py_get data (PStr ''d'') PNone = Inr d \<and> truthy d"
    then show "import_into dumps fresh' name data (import_into dumps fresh name data g)
        = import_into dumps fresh name data g"
      using other [of d fresh'] by (elim conjE)
  qed
qed

theorem import_twice_same_graph_witness:
  "import_into (\<lambda>v. ''{}'') ''7c2e'' ''person''
     (PDict [(PStr ''d'', PStr ''S1''),
             (PStr ''oca_bundle'', PDict [(PStr ''bundle'', PDict
                [(PStr ''capture_base'', PDict [(PStr ''attributes'', PDict [(PStr ''dob'', PStr ''DateTime'')])])])])])
     (import_into (\<lambda>v. ''{}'') ''6fa1'' ''person''
        (PDict [(PStr ''d'', PStr ''S1''),
                (PStr ''oca_bundle'', PDict [(PStr ''bundle'', PDict
                   [(PStr ''capture_base'', PDict [(PStr ''attributes'', PDict [(PStr ''dob'', PStr ''DateTime'')])])])])])
        empty_graph)
   = import_into (\<lambda>v. ''{}'') ''6fa1'' ''person''
        (PDict [(PStr ''d'', PStr ''S1''),
                (PStr ''oca_bundle'', PDict [(PStr ''bundle'', PDict
                   [(PStr ''capture_base'', PDict [(PStr ''attributes'', PDict [(PStr ''dob'', PStr ''DateTime'')])])])])])
        empty_graph"
proof -
  let ?data = "PDict [(PStr ''d'', PStr ''S1''),
                (PStr ''oca_bundle'', PDict [(PStr ''bundle'', PDict
                   [(PStr ''capture_base'', PDict [(PStr ''attributes'', PDict [(PStr ''dob'', PStr ''DateTime'')])])])])]"
  have d: "py_get ?data (PStr ''d'') PNone = Inr (PStr ''S1'') \<and> truthy (PStr ''S1'')"
    by simp
  have "\<forall>d fresh'. py_get ?data (PStr ''d'') PNone = Inr d \<and> truthy d \<longrightarrow>
        import_into (\<lambda>v. ''{}'') fresh' ''person'' ?data
          (import_into (\<lambda>v. ''{}'') ''6fa1'' ''person'' ?data empty_graph)
        = import_into (\<lambda>v. ''{}'') ''6fa1'' ''person'' ?data empty_graph"
    using import_twice_same_graph [of "\<lambda>v. ''{}''" "''6fa1''" "''person''" ?data empty_graph]
    by (rule conjunct2)
  then have "py_get ?data (PStr ''d'') PNone = Inr (PStr ''S1'') \<and> truthy (PStr ''S1'') \<longrightarrow>
        import_into (\<lambda>v. ''{}'') ''7c2e'' ''person'' ?data
          (import_into (\<lambda>v. ''{}'') ''6fa1'' ''person'' ?data empty_graph)
        = import_into (\<lambda>v. ''{}'') ''6fa1'' ''person'' ?data empty_graph"
    by (elim allE)
  with d show ?thesis by (rule mp [rotated])
qed


text \<open>
  A document without a top-level id gets the fresh identifier as its schema id. Two
  imports of such a document that draw different identifiers run different statements,
  and the second adds a Schema node.
\<close>

lemma reimport_without_id_adds_schema_node:
  "length (nodes (import_into (\<lambda>v. ''{}'') ''6fa1'' ''person'' (PDict []) empty_graph)) = 1
   \<and> length (nodes (import_into (\<lambda>v. ''{}'') ''7c2e'' ''person'' (PDict [])
        (import_into (\<lambda>v. ''{}'') ''6fa1'' ''person'' (PDict []) empty_graph))) = 2"
proof -
  have 1: "fst (import_oca_package (\<lambda>v. ''{}'') ''6fa1'' ''person'' (PDict [])) =
      [MergeSchema (PStr ''6fa1'') (PStr ''person'') PNone (PStr ''oca_package/1.0'')]"
    by code_simp
  have 2: "fst (import_oca_package (\<lambda>v. ''{}'') ''7c2e'' ''person'' (PDict [])) =
      [MergeSchema (PStr ''7c2e'') (PStr ''person'') PNone (PStr ''oca_package/1.0'')]"
    by code_simp
  show ?thesis
    unfolding import_into_def 1 2
    by (simp add: null_in_def empty_graph_def nodes_set_matching nodes_merge_node matches_def
        set_props_def set_prop_def)
qed

section \<open>Meta nodes\<close>

text \<open>
  C7. Two documents with different schema ids each have a meta entry with the same
  truthy name and the same language, and both imports return. After the two imports
  into the empty graph, exactly one Meta node matches the name, the first schema id and
  the language, exactly one matches the name, the second schema id and the language,
  and no node matches both: two distinct nodes, one for each schema. No triple of name,
  schema id and language is matched by more than one Meta node, and every Meta node has
  a truthy name: none comes from a meta entry with an absent or empty name.
\<close>

theorem meta_nodes_keyed_per_schema:
  assumes n1: "normalize fresh1 name1 data1 = Inr n1"
    and n2: "normalize fresh2 name2 data2 = Inr n2"
    and r1: "returns (import_oca_package dumps fresh1 name1 data1)"
    and r2: "returns (import_oca_package dumps fresh2 name2 data2)"
    and m1: "py_iter (meta_overlays n1) = Inr ms1" "PDict e1 \<in> set ms1"
    and m2: "py_iter (meta_overlays n2) = Inr ms2" "PDict e2 \<in> set ms2"
    and nm: "dict_get e1 (PStr ''name'') = Some nm" "dict_get e2 (PStr ''name'') = Some nm"
      "truthy nm"
    and lg: "py_get (PDict e1) (PStr ''language'') (PStr ''unknown'') = Inr lang"
      "py_get (PDict e2) (PStr ''language'') (PStr ''unknown'') = Inr lang"
    and diff: "schema_id n1 \<noteq> schema_id n2"
    and g2: "g2 = import_into dumps fresh2 name2 data2
                   (import_into dumps fresh1 name1 data1 empty_graph)"
  shows "length (match_ids ''Meta''
           [(''name'', nm), (''schema_id'', schema_id n1), (''language'', lang)] g2) = 1
       \<and> length (match_ids ''Meta''
           [(''name'', nm), (''schema_id'', schema_id n2), (''language'', lang)] g2) = 1
       \<and> set (match_ids ''Meta''
           [(''name'', nm), (''schema_id'', schema_id n1), (''language'', lang)] g2)
         \<inter> set (match_ids ''Meta''
           [(''name'', nm), (''schema_id'', schema_id n2), (''language'', lang)] g2) = {}
       \<and> (\<forall>a b c. length (match_ids ''Meta''
           [(''name'', a), (''schema_id'', b), (''language'', c)] g2) \<le> 1)
       \<and> named_metas g2"
proof -
  let ?i1 = "import_oca_package dumps fresh1 name1 data1"
  let ?i2 = "import_oca_package dumps fresh2 name2 data2"
  let ?g1 = "import_into dumps fresh1 name1 data1 empty_graph"
  let ?d1 = "case dict_get e1 (PStr ''description'') of Some d \<Rightarrow> d | None \<Rightarrow> PNone"
  let ?d2 = "case dict_get e2 (PStr ''description'') of Some d \<Rightarrow> d | None \<Rightarrow> PNone"
  let ?s1 = "MergeMeta nm ?d1 lang (schema_id n1)"
  let ?s2 = "MergeMeta nm ?d2 lang (schema_id n2)"
  have le: "cnt s g2 \<le> 1" for s
    unfolding g2 by (intro cnt_import_le1) simp
  have ms1: "meta_stmt n1 (PDict e1) = Inr [?s1]"
    using nm(1,3) lg(1) by (simp add: meta_stmt_def)
  have ms2: "meta_stmt n2 (PDict e2) = Inr [?s2]"
    using nm(2,3) lg(2) by (simp add: meta_stmt_def)
  from r1 have e1: "snd ?i1 = None" by (simp add: returns_def)
  from r2 have e2: "snd ?i2 = None" by (simp add: returns_def)
  from import_meta_member [OF n1 e1 m1 ms1] have in1: "?s1 \<in> set (fst ?i1)" by simp
  from import_meta_member [OF n2 e2 m2 ms2] have in2: "?s2 \<in> set (fst ?i2)" by simp
  have "settled ?s1 ?g1"
    using n1 r1 in1 by (rule present_after_import)
  then have s1: "settled ?s1 g2"
    unfolding g2 by (rule settled_import)
  have s2: "settled ?s2 g2"
    unfolding g2 using n2 r2 in2 by (rule present_after_import)
  have c1: "cnt ?s1 g2 = 1" using s1 le by (rule settled_cnt_1)
  have c2: "cnt ?s2 g2 = 1" using s2 le by (rule settled_cnt_1)
  have l1: "length (match_ids ''Meta''
           [(''name'', nm), (''schema_id'', schema_id n1), (''language'', lang)] g2) = 1"
    using c1 length_match_ids_cnt [of ?s1 g2] by simp
  have l2: "length (match_ids ''Meta''
           [(''name'', nm), (''schema_id'', schema_id n2), (''language'', lang)] g2) = 1"
    using c2 length_match_ids_cnt [of ?s2 g2] by simp
  have "pattern ?s1 \<noteq> pattern ?s2" using diff by simp
  from match_ids_disjoint [OF this, of g2]
  have dj: "set (match_ids ''Meta''
           [(''name'', nm), (''schema_id'', schema_id n1), (''language'', lang)] g2)
         \<inter> set (match_ids ''Meta''
           [(''name'', nm), (''schema_id'', schema_id n2), (''language'', lang)] g2) = {}"
    by simp
  have u: "length (match_ids ''Meta''
           [(''name'', a), (''schema_id'', b), (''language'', c)] g2) \<le> 1" for a b c
    using le [of "MergeMeta a PNone c b"] length_match_ids_cnt [of "MergeMeta a PNone c b" g2]
    by simp
  have "named_metas empty_graph"
    by (simp add: named_metas_def empty_graph_def)
  then have nmd: "named_metas g2"
    unfolding g2 by (intro named_metas_import)
  from l1 l2 dj u nmd show ?thesis by blast
qed

theorem meta_nodes_keyed_per_schema_witness:
  "length (match_ids ''Meta''
     [(''name'', PStr ''name''), (''schema_id'', PStr ''S1''), (''language'', PStr ''en'')]
     (import_into (\<lambda>v. ''{}'') ''7c2e'' ''patient''
        (PDict [(PStr ''d'', PStr ''S2''),
                (PStr ''oca_bundle'', PDict [(PStr ''bundle'', PDict [(PStr ''overlays'', PDict
                   [(PStr ''meta'', PList [PDict [(PStr ''name'', PStr ''name''),
                       (PStr ''language'', PStr ''en''), (PStr ''description'', PStr ''Patient'')]])])])])])
     (import_into (\<lambda>v. ''{}'') ''6fa1'' ''person''
        (PDict [(PStr ''d'', PStr ''S1''),
                (PStr ''oca_bundle'', PDict [(PStr ''bundle'', PDict [(PStr ''overlays'', PDict
                   [(PStr ''meta'', PList [PDict [(PStr ''name'', PStr ''name''),
                       (PStr ''language'', PStr ''en''), (PStr ''description'', PStr ''Person'')]])])])])])
        empty_graph))) = 1
   \<and> length (match_ids ''Meta''
     [(''name'', PStr ''name''), (''schema_id'', PStr ''S2''), (''language'', PStr ''en'')]
     (import_into (\<lambda>v. ''{}'') ''7c2e'' ''patient''
        (PDict [(PStr ''d'', PStr ''S2''),
                (PStr ''oca_bundle'', PDict [(PStr ''bundle'', PDict [(PStr ''overlays'', PDict
                   [(PStr ''meta'', PList [PDict [(PStr ''name'', PStr ''name''),
                       (PStr ''language'', PStr ''en''), (PStr ''description'', PStr ''Patient'')]])])])])])
     (import_into (\<lambda>v. ''{}'') ''6fa1'' ''person''
        (PDict [(PStr ''d'', PStr ''S1''),
                (PStr ''oca_bundle'', PDict [(PStr ''bundle'', PDict [(PStr ''overlays'', PDict
                   [(PStr ''meta'', PList [PDict [(PStr ''name'', PStr ''name''),
                       (PStr ''language'', PStr ''en''), (PStr ''description'', PStr ''Person'')]])])])])])
        empty_graph))) = 1"
proof -
  let ?e1 = "[(PStr ''name'', PStr ''name''), (PStr ''language'', PStr ''en''),
              (PStr ''description'', PStr ''Person'')]"
  let ?e2 = "[(PStr ''name'', PStr ''name''), (PStr ''language'', PStr ''en''),
              (PStr ''description'', PStr ''Patient'')]"
  let ?d1 = "PDict [(PStr ''d'', PStr ''S1''),
                (PStr ''oca_bundle'', PDict [(PStr ''bundle'', PDict [(PStr ''overlays'', PDict
                   [(PStr ''meta'', PList [PDict ?e1])])])])]"
  let ?d2 = "PDict [(PStr ''d'', PStr ''S2''),
                (PStr ''oca_bundle'', PDict [(PStr ''bundle'', PDict [(PStr ''overlays'', PDict
                   [(PStr ''meta'', PList [PDict ?e2])])])])]"
  let ?n1 = "\<lparr> schema_id = PStr ''S1'', schema_name = ''person'', capture_base_id = PNone,
            schema_type = PStr ''oca_package/1.0'', attributes = PDict [], units = PDict [],
            attribute_descriptions = [], controlled_vocabularies = [], entry_codes = PDict [],
            attribute_formats = PDict [], meta_overlays = PList [PDict ?e1],
            ordering_data = None \<rparr>"
  let ?n2 = "\<lparr> schema_id = PStr ''S2'', schema_name = ''patient'', capture_base_id = PNone,
            schema_type = PStr ''oca_package/1.0'', attributes = PDict [], units = PDict [],
            attribute_descriptions = [], controlled_vocabularies = [], entry_codes = PDict [],
            attribute_formats = PDict [], meta_overlays = PList [PDict ?e2],
            ordering_data = None \<rparr>"
  have n1: "normalize ''6fa1'' ''person'' ?d1 = Inr ?n1" by code_simp
  have n2: "normalize ''7c2e'' ''patient'' ?d2 = Inr ?n2" by code_simp
  have r1: "returns (import_oca_package (\<lambda>v. ''{}'') ''6fa1'' ''person'' ?d1)" by code_simp
  have r2: "returns (import_oca_package (\<lambda>v. ''{}'') ''7c2e'' ''patient'' ?d2)" by code_simp
  have m1: "py_iter (meta_overlays ?n1) = Inr [PDict ?e1]" by (simp add: py_iter_def)
  have m2: "py_iter (meta_overlays ?n2) = Inr [PDict ?e2]" by (simp add: py_iter_def)
  have i1: "PDict ?e1 \<in> set [PDict ?e1]" by simp
  have i2: "PDict ?e2 \<in> set [PDict ?e2]" by simp
  have nm1: "dict_get ?e1 (PStr ''name'') = Some (PStr ''name'')" by simp
  have nm2: "dict_get ?e2 (PStr ''name'') = Some (PStr ''name'')" by simp
  have t: "truthy (PStr ''name'')" by simp
  have l1: "py_get (PDict ?e1) (PStr ''language'') (PStr ''unknown'') = Inr (PStr ''en'')" by simp
  have l2: "py_get (PDict ?e2) (PStr ''language'') (PStr ''unknown'') = Inr (PStr ''en'')" by simp
  have df: "schema_id ?n1 \<noteq> schema_id ?n2" by simp
  from meta_nodes_keyed_per_schema [OF n1 n2 r1 r2 m1 i1 m2 i2 nm1 nm2 t l1 l2 df refl]
  show ?thesis by simp
qed

end
